theory Spec2Isabelle
  imports Complex_Main "HOL-Library.Char_ord" "HOL-Library.List_Lexorder"
    "HOL-Library.Product_Lexorder"
begin

section \<open>Common conventions\<close>

text \<open>
  The Python service works on dictionaries of numbers and strings. A dictionary with a
  known set of keys is a record here, an optional key is an \<open>option\<close> field, and
  Python's numbers are \<open>real\<close> (binary floating point is not modelled: every
  arithmetic step is exact). Exceptions are values of the type \<open>error\<close>.
\<close>

datatype error = ValueError | ValidationError | ZeroDivisionError | KeyError

text \<open>\<open>d.get(k, default)\<close> for an optional key.\<close>

definition get_or :: "'a option \<Rightarrow> 'a \<Rightarrow> 'a" where
  "get_or v d = (case v of None \<Rightarrow> d | Some x \<Rightarrow> x)"

text \<open>Python's \<open>a or b\<close> on numbers: \<open>0\<close> is falsy.\<close>

definition py_or :: "real \<Rightarrow> real \<Rightarrow> real" where
  "py_or a b = (if a \<noteq> 0 then a else b)"

text \<open>Python's \<open>a or b\<close> on optional strings: \<open>None\<close> and the empty string are falsy.\<close>

definition py_or_str :: "string option \<Rightarrow> string option \<Rightarrow> string option" where
  "py_or_str a b = (case a of None \<Rightarrow> b | Some s \<Rightarrow> if s = [] then b else Some s)"

text \<open>\<open>str.lower()\<close> on ASCII letters; other bytes are left as they are.\<close>

definition lower_char :: "char \<Rightarrow> char" where
  "lower_char c =
     (let n = (of_char c :: nat) in if 65 \<le> n \<and> n \<le> 90 then char_of (n + 32) else c)"

definition lower :: "string \<Rightarrow> string" where
  "lower s = map lower_char s"

text \<open>\<open>str(n)\<close> on a natural number: its decimal digits.\<close>

fun string_of_nat :: "nat \<Rightarrow> string" where
  "string_of_nat n =
     (if n < 10 then [char_of (48 + n)]
      else string_of_nat (n div 10) @ [char_of (48 + n mod 10)])"

text \<open>The substring test \<open>needle in haystack\<close> on strings.\<close>

fun is_prefix :: "string \<Rightarrow> string \<Rightarrow> bool" where
  "is_prefix [] ys = True"
| "is_prefix (x # xs) [] = False"
| "is_prefix (x # xs) (y # ys) = (x = y \<and> is_prefix xs ys)"

fun is_substring :: "string \<Rightarrow> string \<Rightarrow> bool" where
  "is_substring xs [] = (xs = [])"
| "is_substring xs (y # ys) = (is_prefix xs (y # ys) \<or> is_substring xs ys)"

text \<open>\<open>numpy.mean\<close> and \<open>numpy.var\<close> (population variance) of a non-empty list.\<close>

definition np_mean :: "real list \<Rightarrow> real" where
  "np_mean xs = sum_list xs / real (length xs)"

definition np_var :: "real list \<Rightarrow> real" where
  "np_var xs = np_mean (map (\<lambda>x. (x - np_mean xs)\<^sup>2) xs)"


section \<open>Task assignment: \<open>app/ml/task_assignment.py\<close>\<close>

text \<open>
  The developer and task dictionaries, with the keys the scorer reads. A key that is
  read with a default is an \<open>option\<close>; \<open>skills\<close> and \<open>required_skills\<close> default
  to the empty list.
\<close>

record developer =
  user_id :: "string option"
  underscore_id :: "string option"
  name :: "string option"
  skills :: "string list"
  capacity :: "real option"
  availability :: "real option"
  current_workload :: "real option"
  velocity :: "real option"
  completion_rate :: "real option"
  time_accuracy :: "real option"
  collaboration_index :: "real option"
  on_time_delivery :: "real option"
  quality_score :: "real option"
  time_tracking_consistency :: "real option"
  time_logging_variance :: "real option"
  complexity_handled :: "string option"

record task =
  task_id :: "string option"
  required_skills :: "string list"
  description :: "string option"
  complexity :: "string option"
  estimated_story_points :: "real option"
  priority :: "string option"

text \<open>
  The fields of \<open>TaskAssignmentRecommendation\<close> and of its metadata that carry scores;
  the reasoning text and the formatted or rounded workload entries are left out.
\<close>

record recommendation =
  rec_user :: string
  confidence :: real
  workload_impact :: real
  skill_match_score :: real
  performance_score :: real
  workload_score :: real

definition calculate_skill_match :: "string list \<Rightarrow> string list \<Rightarrow> real" where
  "calculate_skill_match required_skills' developer_skills =
     (if required_skills' = [] then 0.5
      else
        let required = set (map lower required_skills');
            developer = set (map lower developer_skills)
        in if developer = {} then 0.2
           else
             let intersection = card (required \<inter> developer);
                 union = card (required \<union> developer)
             in if union = 0 then 0.2
                else max 0.2 (real intersection / real union))"

text \<open>
  \<open>calculate_workload_score\<close> returns (score, utilization, availability). The chain of
  \<open>if\<close>/\<open>elif\<close> is in the order of the source: the test \<open>utilization <= 0.5\<close>
  comes before \<open>utilization <= 0.3\<close>.
\<close>

definition calculate_workload_score :: "developer \<Rightarrow> real \<times> real \<times> real" where
  "calculate_workload_score d =
     (let capacity0 = py_or (py_or (get_or (capacity d) 0) (get_or (availability d) 0)) 40;
          workload = py_or (get_or (current_workload d) 0) 0;
          capacity1 = (if capacity0 \<le> 0 then 40 else capacity0);
          utilization = workload / capacity1;
          score = 1 - utilization;
          score1 = (if utilization \<ge> 0.9 then score * 0.2
                    else if utilization \<le> 0.5 then score * 1.2
                    else if utilization \<le> 0.3 then score * 1.3
                    else score);
          score2 = max 0 (min 1 score1);
          availability1 = max (capacity1 - workload) 0
      in (score2, utilization, availability1))"

definition calculate_performance_score :: "developer \<Rightarrow> real" where
  "calculate_performance_score d =
     np_mean [get_or (completion_rate d) 0.5, get_or (on_time_delivery d) 0.5,
              get_or (quality_score d) 0.5]"

definition calculate_time_pattern_score :: "developer \<Rightarrow> real" where
  "calculate_time_pattern_score d =
     (let consistency = get_or (time_tracking_consistency d) 0.5;
          variance = get_or (time_logging_variance d) 0.3
      in max 0 (min 1 (consistency - 0.2 * variance)))"

definition complexity_map :: "string \<Rightarrow> real" where
  "complexity_map c =
     (if c = ''low'' then 0.3 else if c = ''medium'' then 0.6
      else if c = ''high'' then 0.9 else 0.6)"

definition calculate_complexity_alignment :: "string \<Rightarrow> developer \<Rightarrow> real" where
  "calculate_complexity_alignment task_complexity d =
     (let developer_experience = get_or (complexity_handled d) ''medium'';
          dev_score = complexity_map developer_experience;
          task_score = complexity_map task_complexity
      in 1 - \<bar>dev_score - task_score\<bar>)"

definition complexity_to_numeric :: "string \<Rightarrow> real" where
  "complexity_to_numeric c =
     (if c = ''low'' then 0.2 else if c = ''medium'' then 0.5
      else if c = ''high'' then 0.8 else 0.5)"

definition common_skills :: "string list" where
  "common_skills =
     [''javascript'', ''typescript'', ''react'', ''vue'', ''angular'', ''node'', ''python'',
      ''java'', ''ruby'', ''rails'', ''php'', ''swift'', ''kotlin'', ''go'', ''rust'', ''c++'',
      ''c#'', ''sql'', ''mongodb'', ''postgresql'', ''mysql'', ''redis'', ''docker'',
      ''kubernetes'', ''aws'', ''azure'', ''html'', ''css'', ''sass'', ''less'', ''webpack'',
      ''babel'', ''git'', ''github'', ''gitlab'']"

text \<open>The required skills of a task, inferred from its description when none are given.\<close>

definition effective_required_skills :: "task \<Rightarrow> string list" where
  "effective_required_skills t =
     (if required_skills t = [] \<and> get_or (description t) [] \<noteq> [] then
        let description' = lower (get_or (description t) []);
            found_skills = filter (\<lambda>skill. is_substring skill description') common_skills
        in if found_skills \<noteq> [] then found_skills else required_skills t
      else required_skills t)"

text \<open>
  The nine features handed to the classifier, and \<open>_predict_probability\<close>. The trained
  pipeline (scaler, SVD, logistic regression) is the parameter \<open>clf\<close>, a function of the
  feature vector; \<open>None\<close> is the state in which no model has been loaded.
\<close>

definition feature_vector :: "task \<Rightarrow> developer \<Rightarrow> real list" where
  "feature_vector t d =
     (let task_complexity = get_or (complexity t) ''medium'';
          skill_match = calculate_skill_match (effective_required_skills t) (skills d);
          utilization = fst (snd (calculate_workload_score d));
          collaboration_score = get_or (collaboration_index d) 0.5
      in [skill_match, real (length (skills d)), utilization, get_or (capacity d) 1,
          get_or (velocity d) 0, get_or (completion_rate d) 0, get_or (time_accuracy d) 0,
          collaboration_score, complexity_to_numeric task_complexity])"

definition predict_probability :: "(real list \<Rightarrow> real) option \<Rightarrow> real list \<Rightarrow> real" where
  "predict_probability clf features =
     (case clf of None \<Rightarrow> np_mean features | Some model \<Rightarrow> model features)"

definition weighted_score :: "task \<Rightarrow> developer \<Rightarrow> real" where
  "weighted_score t d =
     (let task_complexity = get_or (complexity t) ''medium'';
          skill_match = calculate_skill_match (effective_required_skills t) (skills d);
          workload_score' = fst (calculate_workload_score d);
          performance_score' = calculate_performance_score d;
          time_pattern_score = calculate_time_pattern_score d;
          complexity_alignment = calculate_complexity_alignment task_complexity d;
          collaboration_score = get_or (collaboration_index d) 0.5
      in 0.3 * skill_match + 0.25 * performance_score' + 0.2 * workload_score'
         + 0.1 * time_pattern_score + 0.1 * complexity_alignment
         + 0.05 * collaboration_score)"

text \<open>
  \<open>_score_developer\<close>. The recommendation's \<open>user\<close> field is a required string, so a
  developer with neither \<open>user_id\<close> nor \<open>_id\<close> makes the constructor raise.
\<close>

definition score_developer ::
  "(real list \<Rightarrow> real) option \<Rightarrow> task \<Rightarrow> developer \<Rightarrow> error + recommendation" where
  "score_developer clf t d =
     (let skill_match = calculate_skill_match (effective_required_skills t) (skills d);
          (workload_score', utilization, availability') = calculate_workload_score d;
          performance_score' = calculate_performance_score d;
          probability = predict_probability clf (feature_vector t d);
          weighted = weighted_score t d;
          confidence' =
            (if weighted < 0.2 \<and> probability < 0.2
             then min 1 (max 0.3 (0.35 + weighted * 0.3))
             else min 1 (max 0.3 (0.6 * weighted + 0.4 * probability)))
      in case py_or_str (user_id d) (underscore_id d) of
           None \<Rightarrow> Inl ValidationError
         | Some u \<Rightarrow>
             Inr \<lparr>rec_user = u, confidence = confidence', workload_impact = utilization,
                  skill_match_score = skill_match, performance_score = performance_score',
                  workload_score = workload_score'\<rparr>)"

text \<open>
  The workload score as the specification words it: the multiplier is 0.2 from a
  utilization of 0.9, 1.3 up to 0.3, 1.2 up to 0.5, and 1 otherwise.
\<close>

definition workload_score_spec :: "real \<Rightarrow> real \<Rightarrow> real" where
  "workload_score_spec workload capacity' =
     (let utilization = workload / capacity';
          m = (if utilization \<ge> 0.9 then 0.2 else if utilization \<le> 0.3 then 1.3
               else if utilization \<le> 0.5 then 1.2 else 1)
      in max 0 (min 1 ((1 - utilization) * m)))"

definition dev0 :: developer where
  "dev0 = \<lparr>user_id = Some ''u1'', underscore_id = None, name = None, skills = [],
           capacity = None, availability = None, current_workload = None, velocity = None,
           completion_rate = None, time_accuracy = None, collaboration_index = None,
           on_time_delivery = None, quality_score = None, time_tracking_consistency = None,
           time_logging_variance = None, complexity_handled = None\<rparr>"

definition task0 :: task where
  "task0 = \<lparr>task_id = Some ''t1'', required_skills = [], description = None,
            complexity = None, estimated_story_points = None, priority = None\<rparr>"

text \<open>
  \<open>sorted(xs, key=f, reverse=True)\<close>: a stable sort in descending order, in which
  elements with equal keys keep their original order.
\<close>

definition sorted_reverse :: "('a \<Rightarrow> 'k::linorder) \<Rightarrow> 'a list \<Rightarrow> 'a list" where
  "sorted_reverse key xs = rev (sort_key key (rev xs))"

text \<open>
  An insertion-ordered dictionary is an association list with distinct keys:
  \<open>dict_set\<close> overwrites the value of a key in place and appends a new key.
\<close>

fun dict_set :: "('k \<times> 'v) list \<Rightarrow> 'k \<Rightarrow> 'v \<Rightarrow> ('k \<times> 'v) list" where
  "dict_set [] k v = [(k, v)]"
| "dict_set ((k', v') # d) k v = (if k' = k then (k', v) # d else (k', v') # dict_set d k v)"

text \<open>
  The entries of a recommendation as \<open>get_recommendations\<close> returns them. Python's
  \<open>round(x, 2)\<close> on floats is the parameter \<open>round2\<close>.
\<close>

record payload =
  p_user_id :: string
  p_confidence :: real
  p_skill_match_score :: real
  p_performance_score :: real
  p_workload_score :: real

fun score_all ::
  "(real list \<Rightarrow> real) option \<Rightarrow> task \<Rightarrow> developer list \<Rightarrow> error + recommendation list" where
  "score_all clf t [] = Inr []"
| "score_all clf t (d # ds) =
     (case score_developer clf t d of
        Inl e \<Rightarrow> Inl e
      | Inr r \<Rightarrow> (case score_all clf t ds of Inl e \<Rightarrow> Inl e | Inr rs \<Rightarrow> Inr (r # rs)))"

definition get_recommendations ::
  "(real \<Rightarrow> real) \<Rightarrow> (real list \<Rightarrow> real) option \<Rightarrow> task \<Rightarrow> developer list \<Rightarrow> nat
     \<Rightarrow> error + payload list" where
  "get_recommendations round2 clf t available_developers top_n =
     (if available_developers = [] then Inr []
      else case score_all clf t available_developers of
             Inl e \<Rightarrow> Inl e
           | Inr recommendations \<Rightarrow>
               let top_recs = take top_n (sorted_reverse confidence recommendations)
               in Inr (map (\<lambda>r. \<lparr>p_user_id = rec_user r,
                                   p_confidence = round2 (confidence r),
                                   p_skill_match_score = round2 (skill_match_score r),
                                   p_performance_score = round2 (performance_score r),
                                   p_workload_score = round2 (workload_score r)\<rparr>) top_recs))"


section \<open>Workload balancing: \<open>app/ml/workload_balancer.py\<close>\<close>

record assignment =
  a_task_id :: "string option"
  assign_to :: string
  a_confidence :: real

text \<open>
  A row of the utilization summary: the member's name and the workload before and after,
  with the capacity; the source formats the last three into two strings.
\<close>

record utilization_row =
  row_user :: string
  row_before :: real
  row_after :: real
  row_capacity :: real

record balance_result =
  balanced_assignments :: "assignment list"
  balance_score :: real
  team_utilization :: "utilization_row list"

fun select_best_fit ::
  "payload list \<Rightarrow> (string \<times> developer) list \<Rightarrow> (string \<times> payload) option" where
  "select_best_fit [] team_state = None"
| "select_best_fit (r # recs) team_state =
     (case map_of team_state (p_user_id r) of
        None \<Rightarrow> select_best_fit recs team_state
      | Some member \<Rightarrow>
          let capacity' = get_or (capacity member) 0;
              projected = get_or (current_workload member) 0 + p_skill_match_score r
          in if capacity' \<le> 0 \<or> projected > capacity' * 1
             then select_best_fit recs team_state
             else Some (p_user_id r, r))"

definition calculate_balance_score :: "(string \<times> developer) list \<Rightarrow> real" where
  "calculate_balance_score team_state =
     (let workloads =
            map (\<lambda>(uid, member).
                   min (get_or (current_workload member) 0
                          / max (get_or (capacity member) (1/1000)) (1/1000)) 1)
                team_state
      in if workloads = [] then 0 else max 0 (1 - np_var workloads))"

text \<open>\<open>{member["user_id"]: member.copy() for member in team_members}\<close>\<close>

fun build_team_state ::
  "developer list \<Rightarrow> (string \<times> developer) list \<Rightarrow> error + (string \<times> developer) list" where
  "build_team_state [] team_state = Inr team_state"
| "build_team_state (member # members) team_state =
     (case user_id member of
        None \<Rightarrow> Inl KeyError
      | Some uid \<Rightarrow> build_team_state members (dict_set team_state uid member))"

fun summarize_utilization ::
  "developer list \<Rightarrow> (string \<times> developer) list \<Rightarrow> error + utilization_row list" where
  "summarize_utilization [] after_state = Inr []"
| "summarize_utilization (member # before_members) after_state =
     (case user_id member of
        None \<Rightarrow> Inl KeyError
      | Some uid \<Rightarrow>
          (case map_of after_state uid of
             None \<Rightarrow> Inl KeyError
           | Some after_member \<Rightarrow>
               let capacity' = get_or (capacity member) 0;
                   before = get_or (current_workload member) 0;
                   after = get_or (current_workload after_member) before;
                   row = \<lparr>row_user = get_or (name member) uid, row_before = before,
                          row_after = after, row_capacity = capacity'\<rparr>
               in (case summarize_utilization before_members after_state of
                     Inl e \<Rightarrow> Inl e
                   | Inr rows \<Rightarrow> Inr (row # rows))))"

text \<open>The loop of \<open>balance_workload\<close> over the tasks sorted by priority.\<close>

fun assign_tasks ::
  "(real \<Rightarrow> real) \<Rightarrow> (real list \<Rightarrow> real) option \<Rightarrow> developer list \<Rightarrow> task list
     \<Rightarrow> (string \<times> developer) list \<times> assignment list
     \<Rightarrow> error + ((string \<times> developer) list \<times> assignment list)" where
  "assign_tasks round2 clf team_members [] st = Inr st"
| "assign_tasks round2 clf team_members (t # ts) (team_state, assignments) =
     (case get_recommendations round2 clf t team_members 3 of
        Inl e \<Rightarrow> Inl e
      | Inr recommendations \<Rightarrow>
          (case select_best_fit recommendations team_state of
             None \<Rightarrow> assign_tasks round2 clf team_members ts (team_state, assignments)
           | Some (uid, r) \<Rightarrow>
               (case map_of team_state uid of
                  None \<Rightarrow> Inl KeyError
                | Some member \<Rightarrow>
                    let member' = member\<lparr>current_workload :=
                          Some (get_or (current_workload member) 0
                                + get_or (estimated_story_points t) 0)\<rparr>
                    in assign_tasks round2 clf team_members ts
                         (dict_set team_state uid member',
                          assignments @ [\<lparr>a_task_id = task_id t, assign_to = uid,
                                           a_confidence = p_confidence r\<rparr>]))))"

definition balance_workload ::
  "(real \<Rightarrow> real) \<Rightarrow> (real list \<Rightarrow> real) option \<Rightarrow> task list \<Rightarrow> developer list
     \<Rightarrow> error + balance_result" where
  "balance_workload round2 clf tasks team_members =
     (if tasks = [] \<or> team_members = []
      then Inr \<lparr>balanced_assignments = [], balance_score = 0, team_utilization = []\<rparr>
      else
        case build_team_state team_members [] of
          Inl e \<Rightarrow> Inl e
        | Inr team_state \<Rightarrow>
            (case assign_tasks round2 clf team_members
                    (sorted_reverse (\<lambda>t. get_or (priority t) ''medium'') tasks)
                    (team_state, []) of
               Inl e \<Rightarrow> Inl e
             | Inr (team_state', assignments) \<Rightarrow>
                 (case summarize_utilization team_members team_state' of
                    Inl e \<Rightarrow> Inl e
                  | Inr utilization \<Rightarrow>
                      Inr \<lparr>balanced_assignments = assignments,
                           balance_score = calculate_balance_score team_state',
                           team_utilization = utilization\<rparr>)))"

definition rec0 :: recommendation where
  "rec0 = \<lparr>rec_user = ''u1'', confidence = 5597/11250, workload_impact = 0,
            skill_match_score = 1/2, performance_score = 1/2,
            workload_score = 1\<rparr>"

definition confidence_of :: "error + recommendation \<Rightarrow> real option" where
  "confidence_of r = (case r of Inl e \<Rightarrow> None | Inr x \<Rightarrow> Some (confidence x))"

definition team_neg :: "(string \<times> developer) list" where
  "team_neg =
     [(''a'', dev0\<lparr>user_id := Some ''a'', capacity := Some 1, current_workload := Some (-100)\<rparr>),
      (''b'', dev0\<lparr>user_id := Some ''b'', capacity := Some 1\<rparr>)]"

definition team2 :: "(string \<times> developer) list" where
  "team2 =
     [(''a'', dev0\<lparr>user_id := Some ''a'', capacity := Some 10, current_workload := Some 10\<rparr>),
      (''b'', dev0\<lparr>user_id := Some ''b'', capacity := Some 10\<rparr>)]"

definition empty_plan :: balance_result where
  "empty_plan = \<lparr>balanced_assignments = [], balance_score = 0, team_utilization = []\<rparr>"

section \<open>Dependency analysis: \<open>app/ml/dependency_analyzer.py\<close>\<close>

text \<open>
  A task of the analyzer is a dictionary with the key \<open>id\<close> and the optional key
  \<open>dependencies\<close> (default: the empty list). The analyzer object holds three
  dictionaries: \<open>tasks\<close> by id, \<open>graph\<close> (a \<open>defaultdict(list)\<close> from a task to its
  dependents) and \<open>in_degree\<close> (a \<open>defaultdict(int)\<close>). Each is an association list in
  insertion order.
\<close>

record dep_task =
  dt_id :: string
  dt_dependencies :: "string list"

record analyzer =
  an_tasks :: "(string \<times> dep_task) list"
  an_graph :: "(string \<times> string list) list"
  an_in_degree :: "(string \<times> int) list"

text \<open>\<open>d.get(k, [])\<close> on the graph and \<open>d.get(k, 0)\<close> on a dictionary of integers.\<close>

definition graph_get :: "('k \<times> 'v list) list \<Rightarrow> 'k \<Rightarrow> 'v list" where
  "graph_get g k = get_or (map_of g k) []"

definition int_get :: "('k \<times> int) list \<Rightarrow> 'k \<Rightarrow> int" where
  "int_get d k = get_or (map_of d k) 0"

text \<open>\<open>graph[k].append(v)\<close> on a \<open>defaultdict(list)\<close>.\<close>

definition graph_append :: "('k \<times> 'v list) list \<Rightarrow> 'k \<Rightarrow> 'v \<Rightarrow> ('k \<times> 'v list) list" where
  "graph_append g k v = dict_set g k (graph_get g k @ [v])"

definition build_graph :: "dep_task list \<Rightarrow> (string \<times> string list) list" where
  "build_graph tasks =
     fold (\<lambda>t g. fold (\<lambda>dependency g'. graph_append g' dependency (dt_id t))
                       (dt_dependencies t) g)
          tasks []"

definition calculate_in_degrees :: "(string \<times> string list) list \<Rightarrow> (string \<times> int) list" where
  "calculate_in_degrees g =
     fold (\<lambda>(node, neighbors) d.
             fold (\<lambda>neighbor d'. dict_set d' neighbor (int_get d' neighbor + 1)) neighbors d)
          g []"

definition DependencyAnalyzer :: "dep_task list \<Rightarrow> analyzer" where
  "DependencyAnalyzer tasks =
     (let g = build_graph tasks
      in \<lparr>an_tasks = fold (\<lambda>t d. dict_set d (dt_id t) t) tasks [],
          an_graph = g,
          an_in_degree = calculate_in_degrees g\<rparr>)"

text \<open>
  \<open>detect_cycles\<close>: the nested function \<open>dfs\<close> with its loop over the neighbours. The
  state is the pair of the sets \<open>visited\<close> and \<open>rec_stack\<close>; a result \<open>True\<close> returns at
  once, leaving the recursion stack as it is.
\<close>

definition graph_nodes :: "(string \<times> string list) list \<Rightarrow> string set" where
  "graph_nodes g = (\<Union>(k, ns) \<in> set g. set ns)"

function dfs ::
    "(string \<times> string list) list \<Rightarrow> string \<Rightarrow> string set \<times> string set
       \<Rightarrow> bool \<times> string set \<times> string set"
  and dfs_neighbors ::
    "(string \<times> string list) list \<Rightarrow> string list \<Rightarrow> string set \<times> string set
       \<Rightarrow> bool \<times> string set \<times> string set"
where
  "dfs g node (visited, rec_stack) =
     (case dfs_neighbors g (graph_get g node) (insert node visited, insert node rec_stack) of
        (True, st) \<Rightarrow> (True, st)
      | (False, visited', rec_stack') \<Rightarrow> (False, visited', rec_stack' - {node}))"
| "dfs_neighbors g [] st = (False, st)"
| "dfs_neighbors g (neighbor # rest) (visited, rec_stack) =
     (if neighbor \<notin> visited then
        (case dfs g neighbor (visited, rec_stack) of
           (True, st) \<Rightarrow> (True, st)
         | (False, st') \<Rightarrow> dfs_neighbors g rest st')
      else if neighbor \<in> rec_stack then (True, visited, rec_stack)
      else dfs_neighbors g rest (visited, rec_stack))"
  by pat_completeness auto

lemma graph_get_nodes: "set (graph_get g k) \<subseteq> graph_nodes g"
proof (cases "map_of g k")
  case None
  then show ?thesis by (simp add: graph_get_def get_or_def)
next
  case (Some ns)
  then have "(k, ns) \<in> set g" by (rule map_of_SomeD)
  then show ?thesis using Some by (auto simp: graph_get_def get_or_def graph_nodes_def)
qed

lemma finite_graph_nodes: "finite (graph_nodes g)"
  by (auto simp: graph_nodes_def)

lemma dfs_visited_mono:
  "dfs_dfs_neighbors_dom (Inl (g, node, st)) \<Longrightarrow> fst st \<subseteq> fst (snd (dfs g node st))"
  "dfs_dfs_neighbors_dom (Inr (g, ns, st)) \<Longrightarrow> fst st \<subseteq> fst (snd (dfs_neighbors g ns st))"
proof (induction g node st and g ns st rule: dfs_dfs_neighbors.pinduct)
  case (1 g node visited rec_stack)
  then show ?case
    by (auto simp: dfs.psimps split: prod.splits bool.splits)
next
  case (2 g st)
  then show ?case by (simp add: dfs_neighbors.psimps)
next
  case (3 g neighbor rest visited rec_stack)
  show ?case
  proof (cases "neighbor \<in> visited")
    case True
    with 3 show ?thesis by (auto simp: dfs_neighbors.psimps)
  next
    case False
    obtain b st' where r: "dfs g neighbor (visited, rec_stack) = (b, st')"
      by (cases "dfs g neighbor (visited, rec_stack)") auto
    show ?thesis
    proof (cases b)
      case True
      with 3 False r show ?thesis by (auto simp: dfs_neighbors.psimps)
    next
      case bf: False
      have "visited \<subseteq> fst st'" using 3(2) [OF False] r by simp
      moreover have "fst st' \<subseteq> fst (snd (dfs_neighbors g rest st'))"
        using 3(3) [OF False r [symmetric]] bf by simp
      ultimately show ?thesis using 3(1) False r bf by (auto simp: dfs_neighbors.psimps)
    qed
  qed
qed

termination dfs
proof (relation "inv_image (less_than <*lex*> less_than) (\<lambda>x. case x of
      Inl (g, node, (v, s)) \<Rightarrow> (card (graph_nodes g - insert node v), Suc (length (graph_get g node)))
    | Inr (g, ns, (v, s)) \<Rightarrow> (card ((graph_nodes g \<union> set ns) - v), length ns))", goal_cases)
  case 1
  then show ?case by (intro wf_inv_image wf_lex_prod wf_less_than)
next
  case (2 g node visited rec_stack)
  have "(graph_nodes g \<union> set (graph_get g node)) = graph_nodes g"
    using graph_get_nodes [of g node] by auto
  then show ?case by simp
next
  case (3 g neighbor rest visited rec_stack)
  have "graph_nodes g - insert neighbor visited
          \<subset> (graph_nodes g \<union> set (neighbor # rest)) - visited"
    using 3 by auto
  then have "card (graph_nodes g - insert neighbor visited)
          < card ((graph_nodes g \<union> set (neighbor # rest)) - visited)"
    by (intro psubset_card_mono) (simp_all add: finite_graph_nodes)
  then show ?case by simp
next
  case (4 g neighbor rest visited rec_stack x y)
  obtain v' s' where y: "y = (v', s')" by (cases y) auto
  have "visited \<subseteq> v'"
    using dfs_visited_mono(1) [OF 4(4)] 4(2) [symmetric] y by simp
  then have "(graph_nodes g \<union> set rest) - v' \<subseteq> (graph_nodes g \<union> set (neighbor # rest)) - visited"
    by auto
  then have "card ((graph_nodes g \<union> set rest) - v')
          \<le> card ((graph_nodes g \<union> set (neighbor # rest)) - visited)"
    by (intro card_mono) (simp_all add: finite_graph_nodes)
  then show ?case using y by auto
next
  case (5 g neighbor rest visited rec_stack)
  have "card ((graph_nodes g \<union> set rest) - visited)
          \<le> card ((graph_nodes g \<union> set (neighbor # rest)) - visited)"
    by (intro card_mono) (auto simp add: finite_graph_nodes)
  then show ?case by auto
qed

fun detect_loop ::
  "(string \<times> string list) list \<Rightarrow> string list \<Rightarrow> string set \<times> string set \<Rightarrow> bool" where
  "detect_loop g [] st = False"
| "detect_loop g (node # nodes) (visited, rec_stack) =
     (if node \<notin> visited then
        (case dfs g node (visited, rec_stack) of
           (True, st) \<Rightarrow> True
         | (False, st') \<Rightarrow> detect_loop g nodes st')
      else detect_loop g nodes (visited, rec_stack))"

definition detect_cycles :: "analyzer \<Rightarrow> bool" where
  "detect_cycles a = detect_loop (an_graph a) (map fst (an_graph a)) ({}, {})"

text \<open>
  The body of the loop over the neighbours in \<open>topological_sort\<close> and
  \<open>parallel_execution\<close>: \<open>in_degree[neighbor] -= 1\<close>, and the neighbour joins the queue
  when its count has reached 0.
\<close>

definition relax ::
  "string \<Rightarrow> (string \<times> int) list \<times> string list \<Rightarrow> (string \<times> int) list \<times> string list" where
  "relax neighbor = (\<lambda>(in_degree, queue).
     let in_degree' = dict_set in_degree neighbor (int_get in_degree neighbor - 1)
     in if int_get in_degree' neighbor = 0 then (in_degree', queue @ [neighbor])
        else (in_degree', queue))"

text \<open>
  The measure of both loops: the length of the queue plus the number of nodes of the
  graph whose count is still positive.
\<close>

definition kahn_measure ::
  "(string \<times> string list) list \<Rightarrow> (string \<times> int) list \<Rightarrow> string list \<Rightarrow> nat" where
  "kahn_measure g in_degree queue =
     length queue + card {n \<in> graph_nodes g. 0 < int_get in_degree n}"

lemma map_of_dict_set: "map_of (dict_set d k v) = (map_of d)(k \<mapsto> v)"
  by (induction d) (auto simp: fun_eq_iff)

lemma int_get_dict_set: "int_get (dict_set d k v) k' = (if k' = k then v else int_get d k')"
  by (simp add: int_get_def map_of_dict_set get_or_def)

lemma relax_measure:
  assumes nb: "neighbor \<in> graph_nodes g" and r: "relax neighbor (d, q) = (d', q')"
  shows "kahn_measure g d' q' \<le> kahn_measure g d q"
proof (cases "int_get d neighbor = 1")
  case True
  have d': "d' = dict_set d neighbor 0" and q': "q' = q @ [neighbor]"
    using r True by (simp_all add: relax_def Let_def int_get_dict_set)
  have "{n \<in> graph_nodes g. 0 < int_get d' n} = {n \<in> graph_nodes g. 0 < int_get d n} - {neighbor}"
    using True by (auto simp: d' int_get_dict_set)
  moreover have "neighbor \<in> {n \<in> graph_nodes g. 0 < int_get d n}"
    using True nb by simp
  moreover have "finite {n \<in> graph_nodes g. 0 < int_get d n}"
    by (simp add: finite_graph_nodes)
  ultimately have "Suc (card {n \<in> graph_nodes g. 0 < int_get d' n})
      = card {n \<in> graph_nodes g. 0 < int_get d n}"
    using card_Suc_Diff1 [of "{n \<in> graph_nodes g. 0 < int_get d n}" neighbor] by simp
  then show ?thesis by (simp add: kahn_measure_def q')
next
  case False
  have d': "d' = dict_set d neighbor (int_get d neighbor - 1)" and q': "q' = q"
    using r False by (simp_all add: relax_def Let_def int_get_dict_set)
  have "{n \<in> graph_nodes g. 0 < int_get d' n} = {n \<in> graph_nodes g. 0 < int_get d n}"
    using False by (auto simp: d' int_get_dict_set)
  then show ?thesis by (simp add: kahn_measure_def q')
qed

lemma fold_relax_measure:
  "set ns \<subseteq> graph_nodes g \<Longrightarrow> fold relax ns (d, q) = (d', q') \<Longrightarrow>
     kahn_measure g d' q' \<le> kahn_measure g d q"
proof (induction ns arbitrary: d q)
  case Nil
  then show ?case by simp
next
  case (Cons n ns)
  obtain d1 q1 where r: "relax n (d, q) = (d1, q1)" by (cases "relax n (d, q)") auto
  have "kahn_measure g d1 q1 \<le> kahn_measure g d q"
    using relax_measure [OF _ r] Cons.prems(1) by simp
  moreover have "kahn_measure g d' q' \<le> kahn_measure g d1 q1"
    using Cons.IH [of d1 q1] Cons.prems r by simp
  ultimately show ?case by simp
qed

function kahn_loop ::
  "(string \<times> string list) list \<Rightarrow> (string \<times> int) list \<Rightarrow> string list \<Rightarrow> string list
     \<Rightarrow> string list" where
  "kahn_loop g in_degree [] topo_order = topo_order"
| "kahn_loop g in_degree (current # queue) topo_order =
     (case fold relax (graph_get g current) (in_degree, queue) of
        (in_degree', queue') \<Rightarrow> kahn_loop g in_degree' queue' (topo_order @ [current]))"
  by pat_completeness auto
termination
proof (relation "measure (\<lambda>(g, in_degree, queue, topo_order). kahn_measure g in_degree queue)",
       goal_cases)
  case 1
  then show ?case by simp
next
  case (2 g in_degree current queue topo_order x y)
  have "kahn_measure g x y \<le> kahn_measure g in_degree queue"
    using fold_relax_measure [OF graph_get_nodes, of g current in_degree queue x y] 2 by simp
  then show ?case by (simp add: kahn_measure_def)
qed

definition topological_sort :: "analyzer \<Rightarrow> error + string list" where
  "topological_sort a =
     (let in_degree = an_in_degree a;
          queue = filter (\<lambda>node. int_get in_degree node = 0) (map fst (an_tasks a));
          topo_order = kahn_loop (an_graph a) in_degree queue []
      in if length topo_order \<noteq> length (an_tasks a) then Inl ValueError
         else Inr topo_order)"


text \<open>
  \<open>parallel_execution\<close>. \<open>level\<close> is a \<open>defaultdict(int)\<close>: reading \<open>level[k]\<close> for a
  missing key inserts it with the value 0. The loop decrements \<open>self.in_degree\<close> itself,
  so the analyzer is returned with the counts the loop has left.
\<close>

definition dd_read :: "('k \<times> int) list \<Rightarrow> 'k \<Rightarrow> ('k \<times> int) list" where
  "dd_read d k = (case map_of d k of None \<Rightarrow> d @ [(k, 0)] | Some v \<Rightarrow> d)"

definition level_step ::
  "string \<Rightarrow> string \<Rightarrow> (string \<times> int) list \<times> (string \<times> int) list \<times> string list
     \<Rightarrow> (string \<times> int) list \<times> (string \<times> int) list \<times> string list" where
  "level_step node neighbor = (\<lambda>(level, in_degree, queue).
     let level1 = dd_read (dd_read level neighbor) node;
         level2 = dict_set level1 neighbor
                    (max (int_get level1 neighbor) (int_get level1 node + 1))
     in (level2, relax neighbor (in_degree, queue)))"

lemma fold_level_step_relax:
  "snd (fold (level_step node) ns (level, dq)) = fold relax ns dq"
proof (induction ns arbitrary: level dq)
  case Nil
  then show ?case by simp
next
  case (Cons n ns)
  obtain d q where dq: "dq = (d, q)" by (cases dq) auto
  show ?case
    unfolding dq using Cons.IH by (simp add: level_step_def Let_def dq [symmetric])
qed

function level_loop ::
  "(string \<times> string list) list \<Rightarrow> (string \<times> int) list \<Rightarrow> (string \<times> int) list \<Rightarrow> string list
     \<Rightarrow> (string \<times> int) list \<times> (string \<times> int) list" where
  "level_loop g level in_degree [] = (level, in_degree)"
| "level_loop g level in_degree (node # queue) =
     (case fold (level_step node) (graph_get g node) (level, in_degree, queue) of
        (level', in_degree', queue') \<Rightarrow> level_loop g level' in_degree' queue')"
  by pat_completeness auto
termination
proof (relation "measure (\<lambda>(g, level, in_degree, queue). kahn_measure g in_degree queue)",
       goal_cases)
  case 1
  then show ?case by simp
next
  case (2 g level in_degree node queue level' rest in_degree' queue')
  have "snd (fold (level_step node) (graph_get g node) (level, in_degree, queue))
          = (in_degree', queue')"
    using 2 by (metis snd_conv)
  then have "fold relax (graph_get g node) (in_degree, queue) = (in_degree', queue')"
    by (simp add: fold_level_step_relax)
  then have "kahn_measure g in_degree' queue' \<le> kahn_measure g in_degree queue"
    using fold_relax_measure [OF graph_get_nodes] by blast
  then show ?case by (simp add: kahn_measure_def)
qed

definition parallel_execution :: "analyzer \<Rightarrow> string list list \<times> analyzer" where
  "parallel_execution a =
     (let queue = filter (\<lambda>node. int_get (an_in_degree a) node = 0) (map fst (an_tasks a));
          (level, in_degree') = level_loop (an_graph a) [] (an_in_degree a) queue;
          parallel_levels = fold (\<lambda>(node, lvl) pl. graph_append pl lvl node) level []
      in (map snd (sort_key fst parallel_levels), a\<lparr>an_in_degree := in_degree'\<rparr>))"

definition tasks_BA :: "dep_task list" where
  "tasks_BA = [\<lparr>dt_id = ''B'', dt_dependencies = [''A'']\<rparr>,
               \<lparr>dt_id = ''A'', dt_dependencies = []\<rparr>]"

section \<open>Program-increment optimizer: \<open>app/ml/pi_optimizer.py\<close>\<close>

text \<open>
  The ids of features and sprints are strings or integers as the caller sends them. The
  code keys some dictionaries by the id as it is and others by \<open>str(id)\<close>, and a string
  and an integer are never the same key, so an id is a value of \<open>py_id\<close> and \<open>py_str\<close> is
  Python's \<open>str\<close> on it.
\<close>

datatype py_id = PStr string | PInt int

definition py_str :: "py_id \<Rightarrow> string" where
  "py_str x =
     (case x of
        PStr s \<Rightarrow> s
      | PInt i \<Rightarrow> if i < 0 then CHR ''-'' # string_of_nat (nat (- i)) else string_of_nat (nat i))"

text \<open>Truthiness of an id, and \<open>a or b\<close> on optional ids.\<close>

definition py_truthy :: "py_id \<Rightarrow> bool" where
  "py_truthy x = (case x of PStr s \<Rightarrow> s \<noteq> [] | PInt i \<Rightarrow> i \<noteq> 0)"

definition py_or_id :: "py_id option \<Rightarrow> py_id option \<Rightarrow> py_id option" where
  "py_or_id a b = (case a of None \<Rightarrow> b | Some x \<Rightarrow> if py_truthy x then Some x else b)"

text \<open>
  An edge with \<open>fromFeature = f\<close> and \<open>toFeature = d\<close> says that \<open>f\<close> depends on \<open>d\<close>: the
  graph maps \<open>f\<close> to the list of the features it depends on.
\<close>

record feature =
  f_id :: py_id
  f_title :: "string option"
  f_points :: "real option"
  f_estimatedStoryPoints :: "real option"
  f_priority :: "string option"
  f_businessValue :: "real option"

record sprint =
  s_id :: py_id
  s_name :: "string option"
  s_capacity :: "real option"

record dependency =
  fromFeature :: "py_id option"
  from_feature :: "py_id option"
  toFeature :: "py_id option"
  to_feature :: "py_id option"

record pi_assignment =
  featureId :: string
  sprintId :: string
  points :: real

text \<open>\<open>feature.get("points", 0) or feature.get("estimatedStoryPoints", 0) or 0\<close>\<close>

definition feature_points :: "feature \<Rightarrow> real" where
  "feature_points f =
     py_or (py_or (get_or (f_points f) 0) (get_or (f_estimatedStoryPoints f) 0)) 0"

text \<open>
  \<open>_build_dependency_graph\<close>: the keys are the ids as they are; an edge is added when
  \<open>str(from_id)\<close> is a key, and it stores \<open>str(to_id)\<close>.
\<close>

definition build_dependency_graph ::
  "feature list \<Rightarrow> dependency list \<Rightarrow> (py_id \<times> string list) list" where
  "build_dependency_graph features dependencies =
     fold (\<lambda>dep graph.
             case (py_or_id (fromFeature dep) (from_feature dep),
                   py_or_id (toFeature dep) (to_feature dep)) of
               (Some from_id, Some to_id) \<Rightarrow>
                 if py_truthy from_id \<and> py_truthy to_id
                    \<and> map_of graph (PStr (py_str from_id)) \<noteq> None
                 then graph_append graph (PStr (py_str from_id)) (py_str to_id) else graph
             | _ \<Rightarrow> graph)
          dependencies
          (fold (\<lambda>f graph. dict_set graph (f_id f) []) features [])"

definition priority_weights :: "string \<Rightarrow> real" where
  "priority_weights p =
     (if p = ''critical'' then 10 else if p = ''high'' then 7
      else if p = ''medium'' then 4 else if p = ''low'' then 1 else 4)"

fun calculate_priority_scores ::
  "feature list \<Rightarrow> (string \<times> real) list \<Rightarrow> error + (string \<times> real) list" where
  "calculate_priority_scores [] scores = Inr scores"
| "calculate_priority_scores (f # fs) scores =
     (let priority' = lower (get_or (f_priority f) ''medium'');
          points' = feature_points f;
          business_value = py_or (get_or (f_businessValue f) 5) 5;
          priority_weight = priority_weights priority'
      in if points' + 1 = 0 then Inl ZeroDivisionError
         else calculate_priority_scores fs
                (dict_set scores (py_str (f_id f))
                   (priority_weight * business_value / (points' + 1))))"

text \<open>
  The nested function \<open>visit\<close> of \<open>_sort_features_by_priority\<close>. \<open>temp_visited\<close> is the
  set of the features being visited: it is the same on return as on entry, so it is an
  argument; \<open>visited\<close> and \<open>sorted_list\<close> are the state.
\<close>

function visit ::
  "(py_id \<times> string list) list \<Rightarrow> feature list \<Rightarrow> string \<Rightarrow> string set
     \<Rightarrow> string set \<times> feature list \<Rightarrow> string set \<times> feature list" where
  "visit graph features feature_id temp_visited (visited, sorted_list) =
     (if feature_id \<in> temp_visited then (visited, sorted_list)
      else if feature_id \<in> visited then (visited, sorted_list)
      else
        case fold (\<lambda>dep_id st. visit graph features dep_id (insert feature_id temp_visited) st)
                  (graph_get graph (PStr feature_id)) (visited, sorted_list) of
          (visited', sorted_list') \<Rightarrow>
            (insert feature_id visited',
             case find (\<lambda>f. py_str (f_id f) = feature_id) features of
               None \<Rightarrow> sorted_list'
             | Some f \<Rightarrow> sorted_list' @ [f]))"
  by pat_completeness auto
termination
proof (relation "measure (\<lambda>(graph, features, feature_id, temp_visited, st).
                           card (fst ` set graph - PStr ` temp_visited))", goal_cases)
  case 1
  then show ?case by simp
next
  case (2 graph features feature_id temp_visited visited sorted_list dep_id st)
  have "map_of graph (PStr feature_id) \<noteq> None"
  proof
    assume "map_of graph (PStr feature_id) = None"
    then have "graph_get graph (PStr feature_id) = []" by (simp add: graph_get_def get_or_def)
    with 2(3) show False by simp
  qed
  then have "PStr feature_id \<in> fst ` set graph"
    by (auto dest: map_of_SomeD intro: rev_image_eqI)
  moreover have "PStr feature_id \<notin> PStr ` temp_visited" using 2(1) by auto
  ultimately have "fst ` set graph - PStr ` insert feature_id temp_visited
                     \<subset> fst ` set graph - PStr ` temp_visited"
    by auto
  then have "card (fst ` set graph - PStr ` insert feature_id temp_visited)
               < card (fst ` set graph - PStr ` temp_visited)"
    by (intro psubset_card_mono) simp_all
  then show ?case by simp
qed

definition sort_features_by_priority ::
  "feature list \<Rightarrow> (string \<times> real) list \<Rightarrow> (py_id \<times> string list) list \<Rightarrow> feature list" where
  "sort_features_by_priority features priority_scores dependency_graph =
     (let feature_ids =
            sorted_reverse (\<lambda>x. get_or (map_of priority_scores x) 0)
              (map (\<lambda>f. py_str (f_id f)) features)
      in snd (fold (\<lambda>feature_id (visited, sorted_list).
                      if feature_id \<notin> visited
                      then visit dependency_graph features feature_id {} (visited, sorted_list)
                      else (visited, sorted_list))
                   feature_ids ({}, [])))"

text \<open>
  The loop over the sprints in \<open>_allocate_features_to_sprints\<close>: a sprint with room that
  holds a dependency is taken at once (\<open>break\<close>); otherwise the first sprint with room is
  kept while the loop goes on. Capacity and allocation are read by \<open>str(id)\<close>.
\<close>

fun find_best_sprint ::
  "sprint list \<Rightarrow> (py_id \<times> real) list \<Rightarrow> (py_id \<times> real) list \<Rightarrow> real \<Rightarrow> string list
     \<Rightarrow> sprint option \<Rightarrow> sprint option" where
  "find_best_sprint [] sprint_capacities sprint_allocated points' dependency_sprints best_sprint
     = best_sprint"
| "find_best_sprint (s # ss) sprint_capacities sprint_allocated points' dependency_sprints
       best_sprint =
     (let sprint_id = py_str (s_id s);
          capacity' = get_or (map_of sprint_capacities (PStr sprint_id)) 0;
          allocated = get_or (map_of sprint_allocated (PStr sprint_id)) 0
      in if allocated + points' \<le> capacity'
         then (if sprint_id \<in> set dependency_sprints then Some s
               else if best_sprint = None
               then find_best_sprint ss sprint_capacities sprint_allocated points'
                      dependency_sprints (Some s)
               else find_best_sprint ss sprint_capacities sprint_allocated points'
                      dependency_sprints best_sprint)
         else find_best_sprint ss sprint_capacities sprint_allocated points'
                dependency_sprints best_sprint)"

text \<open>The sprint a feature is given: the loop's choice, or else the first sprint.\<close>

definition choose_sprint ::
  "sprint list \<Rightarrow> (py_id \<times> real) list \<Rightarrow> (py_id \<times> real) list \<Rightarrow> real \<Rightarrow> string list
     \<Rightarrow> sprint option" where
  "choose_sprint sprints sprint_capacities sprint_allocated points' dependency_sprints =
     (case find_best_sprint sprints sprint_capacities sprint_allocated points'
             dependency_sprints None of
        Some s \<Rightarrow> Some s
      | None \<Rightarrow> (case sprints of [] \<Rightarrow> None | s # ss \<Rightarrow> Some s))"

text \<open>
  The loop over the sorted features. The state is the list of assignments, the
  dictionary \<open>sprint_allocated\<close> (written by \<open>str(id)\<close>) and the dictionary
  \<open>feature_to_sprint\<close>.
\<close>

fun allocate_loop ::
  "feature list \<Rightarrow> sprint list \<Rightarrow> (py_id \<times> string list) list \<Rightarrow> (py_id \<times> real) list
     \<Rightarrow> pi_assignment list \<times> (py_id \<times> real) list \<times> (string \<times> string) list
     \<Rightarrow> pi_assignment list" where
  "allocate_loop [] sprints dependency_graph sprint_capacities
       (assignments, sprint_allocated, feature_to_sprint) = assignments"
| "allocate_loop (f # fs) sprints dependency_graph sprint_capacities
       (assignments, sprint_allocated, feature_to_sprint) =
     (let feature_id = py_str (f_id f);
          points' = feature_points f;
          dependencies = graph_get dependency_graph (PStr feature_id);
          dependency_sprints =
            map (\<lambda>dep_id. the (map_of feature_to_sprint dep_id))
                (filter (\<lambda>dep_id. map_of feature_to_sprint dep_id \<noteq> None) dependencies)
      in case choose_sprint sprints sprint_capacities sprint_allocated points'
                dependency_sprints of
           None \<Rightarrow>
             allocate_loop fs sprints dependency_graph sprint_capacities
               (assignments, sprint_allocated, feature_to_sprint)
         | Some best_sprint \<Rightarrow>
             (let best_sprint_id = py_str (s_id best_sprint)
              in allocate_loop fs sprints dependency_graph sprint_capacities
                   (assignments @ [\<lparr>featureId = feature_id, sprintId = best_sprint_id,
                                     points = points'\<rparr>],
                    dict_set sprint_allocated (PStr best_sprint_id)
                      (get_or (map_of sprint_allocated (PStr best_sprint_id)) 0 + points'),
                    dict_set feature_to_sprint feature_id best_sprint_id)))"

definition sprint_capacities_of :: "sprint list \<Rightarrow> (py_id \<times> real) list" where
  "sprint_capacities_of sprints =
     fold (\<lambda>s d. dict_set d (s_id s) (py_or (get_or (s_capacity s) 0) 0)) sprints []"

definition allocate_features_to_sprints ::
  "feature list \<Rightarrow> sprint list \<Rightarrow> (py_id \<times> string list) list \<Rightarrow> pi_assignment list" where
  "allocate_features_to_sprints sorted_features sprints dependency_graph =
     allocate_loop sorted_features sprints dependency_graph (sprint_capacities_of sprints)
       ([], fold (\<lambda>s d. dict_set d (s_id s) 0) sprints [], [])"

text \<open>
  \<open>optimize\<close>, as far as the assignments: the metrics and the overload warnings are
  computed from the assignments afterwards and are not modelled.
\<close>

definition optimize ::
  "feature list \<Rightarrow> sprint list \<Rightarrow> dependency list \<Rightarrow> error + pi_assignment list" where
  "optimize features sprints dependencies =
     (let dependency_graph = build_dependency_graph features dependencies
      in case calculate_priority_scores features [] of
           Inl e \<Rightarrow> Inl e
         | Inr priority_scores \<Rightarrow>
             Inr (allocate_features_to_sprints
                    (sort_features_by_priority features priority_scores dependency_graph)
                    sprints dependency_graph))"













definition deps_B_on_A :: "dependency list" where
  "deps_B_on_A = [\<lparr>fromFeature = Some (PStr ''B''), from_feature = None,
                   toFeature = Some (PStr ''A''), to_feature = None\<rparr>]"

definition features_BA :: "feature list" where
  "features_BA =
     [\<lparr>f_id = PStr ''B'', f_title = None, f_points = Some 3, f_estimatedStoryPoints = None,
       f_priority = None, f_businessValue = None\<rparr>,
      \<lparr>f_id = PStr ''A'', f_title = None, f_points = Some 8, f_estimatedStoryPoints = None,
       f_priority = None, f_businessValue = None\<rparr>]"


definition sprints_int :: "sprint list" where
  "sprints_int = [\<lparr>s_id = PInt 1, s_name = None, s_capacity = Some 5\<rparr>,
                  \<lparr>s_id = PInt 2, s_name = None, s_capacity = Some 20\<rparr>]"

text \<open>
  The edges of the stored graph: \<open>(a, b)\<close> when \<open>b\<close> is in the list of \<open>a\<close>. A
  directed cycle through \<open>x\<close> is a pair \<open>(x, x)\<close> in the transitive closure.
\<close>

definition graph_edges :: "(string \<times> string list) list \<Rightarrow> (string \<times> string) set" where
  "graph_edges g = {(a, b). b \<in> set (graph_get g a)}"

definition tasks_AB_cycle :: "dep_task list" where
  "tasks_AB_cycle = [\<lparr>dt_id = ''A'', dt_dependencies = [''B'']\<rparr>,
                     \<lparr>dt_id = ''B'', dt_dependencies = [''A'']\<rparr>]"

definition tasks_CD_cycle :: "dep_task list" where
  "tasks_CD_cycle = [\<lparr>dt_id = ''C'', dt_dependencies = [''D'']\<rparr>,
                     \<lparr>dt_id = ''D'', dt_dependencies = [''C'']\<rparr>]"

text \<open>
  The invariant of the search while no cycle has been reported: the finished nodes
  (visited and no longer on the recursion stack) are closed under the edges, and none of
  them lies on a cycle.
\<close>

definition dfs_inv :: "(string \<times> string list) list \<Rightarrow> string set \<Rightarrow> string set \<Rightarrow> bool" where
  "dfs_inv g v s \<longleftrightarrow>
     s \<subseteq> v \<and> (\<forall>n \<in> v - s. set (graph_get g n) \<subseteq> v - s \<and> (n, n) \<notin> (graph_edges g)\<^sup>+)"

text \<open>
  The dependency relation of a task list: \<open>(a, b)\<close> when the task \<open>b\<close> lists \<open>a\<close> among
  its dependencies. \<open>index_of\<close> is the position of the first occurrence in a list.
\<close>

definition dep_edges :: "dep_task list \<Rightarrow> (string \<times> string) set" where
  "dep_edges tasks = {(a, b). \<exists>t \<in> set tasks. dt_id t = b \<and> a \<in> set (dt_dependencies t)}"

fun index_of :: "'a list \<Rightarrow> 'a \<Rightarrow> nat" where
  "index_of [] a = 0"
| "index_of (x # xs) a = (if x = a then 0 else Suc (index_of xs a))"

definition tasks_chain :: "dep_task list" where
  "tasks_chain = [\<lparr>dt_id = ''C'', dt_dependencies = [''B'', ''A'']\<rparr>,
                  \<lparr>dt_id = ''B'', dt_dependencies = [''A'']\<rparr>,
                  \<lparr>dt_id = ''A'', dt_dependencies = []\<rparr>]"

text \<open>
  The invariant of the loop of \<open>topological_sort\<close> for a graph over the task ids \<open>K\<close>:
  the emitted order and the queue hold distinct task ids; the count of a node is the
  number of edges into it from nodes not yet emitted; a node is emitted or queued
  exactly when its count is 0; every emitted node comes after the nodes it depends on.
\<close>

definition kahn_inv ::
  "(string \<times> string list) list \<Rightarrow> string set \<Rightarrow> (string \<times> int) list \<Rightarrow> string list
     \<Rightarrow> string list \<Rightarrow> bool" where
  "kahn_inv g K d q out \<longleftrightarrow>
     distinct (out @ q) \<and> set (out @ q) \<subseteq> K \<and>
     (\<forall>b. int_get d b = (\<Sum>a \<in> K - set out. int (count_list (graph_get g a) b))) \<and>
     (\<forall>b \<in> K. b \<in> set (out @ q) \<longleftrightarrow> int_get d b = 0) \<and>
     (\<forall>a b. b \<in> set (graph_get g a) \<longrightarrow> b \<in> set out \<longrightarrow>
            a \<in> set out \<and> index_of out a < index_of out b)"

section \<open>Sprint planner: \<open>app/ml/sprint_planner.py\<close>\<close>

text \<open>
  A backlog story as the caller sends it, the story as \<open>suggest_stories_for_sprint\<close>
  normalises it (every key is present afterwards), and a team member with the keys the
  planner reads.
\<close>

record story =
  st_story_id :: "string option"
  st_id :: "string option"
  st_underscore_id :: "string option"
  st_title :: "string option"
  st_story_points :: "real option"
  st_points :: "real option"
  st_priority :: "string option"
  st_complexity :: "string option"
  st_business_value :: "real option"
  st_blocked_by :: "string option"
  st_dependencies :: "string list option"
  st_required_skills :: "string list option"

record normalized_story =
  ns_story_id :: string
  ns_id :: string
  ns_title :: string
  ns_story_points :: real
  ns_points :: real
  ns_priority :: string
  ns_complexity :: string
  ns_business_value :: real
  ns_blocked_by :: "string option"
  ns_dependencies :: "string list"
  ns_required_skills :: "string list"

record member =
  m_user_id :: "string option"
  m_underscore_id :: "string option"
  m_name :: "string option"
  m_full_name :: "string option"
  m_skills :: "string list option"
  m_capacity :: "real option"
  m_current_workload :: "real option"
  m_on_vacation :: "bool option"

text \<open>\<open>a or s\<close> where \<open>a\<close> is an optional string and \<open>s\<close> a string.\<close>

definition py_or_default :: "string option \<Rightarrow> string \<Rightarrow> string" where
  "py_or_default a s = (case a of None \<Rightarrow> s | Some x \<Rightarrow> if x = [] then s else x)"

definition normalize_story :: "story \<Rightarrow> normalized_story" where
  "normalize_story story =
     \<lparr>ns_story_id = py_or_default (py_or_str (st_story_id story) (st_id story))
                       (get_or (st_underscore_id story) ''''),
      ns_id = py_or_default (py_or_str (st_id story) (st_story_id story))
                (get_or (st_underscore_id story) ''''),
      ns_title = get_or (st_title story) '''',
      ns_story_points =
        py_or (py_or (get_or (st_story_points story) 0) (get_or (st_points story) 0)) 0,
      ns_points =
        py_or (py_or (get_or (st_points story) 0) (get_or (st_story_points story) 0)) 0,
      ns_priority = get_or (st_priority story) ''medium'',
      ns_complexity = get_or (st_complexity story) ''medium'',
      ns_business_value = get_or (st_business_value story) 1,
      ns_blocked_by = st_blocked_by story,
      ns_dependencies = get_or (st_dependencies story) [],
      ns_required_skills = get_or (st_required_skills story) []\<rparr>"

text \<open>\<open>_calculate_team_capacity\<close>\<close>

definition calculate_team_capacity :: "member list \<Rightarrow> real \<Rightarrow> real" where
  "calculate_team_capacity team_members fallback =
     py_or (fold (\<lambda>member capacity'.
                    let remaining = get_or (m_capacity member) 0
                                      - get_or (m_current_workload member) 0;
                        remaining' = (if get_or (m_on_vacation member) False
                                      then remaining * 0.5 else remaining)
                    in capacity' + max remaining' 0)
                 team_members 0)
           fallback"

text \<open>The dictionary \<open>{"high": 1.5, "medium": 1.0, "low": 0.7}\<close> read with the default 1.0.\<close>

definition priority_bonus_of :: "string \<Rightarrow> real" where
  "priority_bonus_of p =
     (if p = ''high'' then 1.5 else if p = ''medium'' then 1.0
      else if p = ''low'' then 0.7 else 1.0)"

text \<open>\<open>story.get("story_points", 0) or story.get("points", 0)\<close> on a normalised story.\<close>

definition story_effort :: "normalized_story \<Rightarrow> real" where
  "story_effort s = py_or (ns_story_points s) (ns_points s)"

text \<open>
  \<open>_thompson_sample\<close>. The two sources of randomness are parameters that thread a
  generator state: \<open>shuffle\<close> is \<open>random.shuffle\<close> and \<open>beta\<close> is \<open>numpy.random.beta\<close>.
  \<open>random.shuffle\<close> reorders the list \<open>stories\<close> in place, so the shuffled list is
  returned with the sample.
\<close>

fun sample_loop ::
  "('g \<Rightarrow> real \<Rightarrow> real \<Rightarrow> real \<times> 'g) \<Rightarrow> real \<Rightarrow> normalized_story list
     \<Rightarrow> normalized_story list \<times> real \<times> 'g \<Rightarrow> normalized_story list \<times> real \<times> 'g" where
  "sample_loop beta capacity' [] (selection, total', g) = (selection, total', g)"
| "sample_loop beta capacity' (story # rest) (selection, total', g) =
     (let points' = story_effort story;
          priority_bonus = priority_bonus_of (ns_priority story)
      in case beta g (priority_bonus * 2) 2 of
           (probability, g') \<Rightarrow>
             if total' + points' \<le> capacity' \<and> probability > 0.4
             then sample_loop beta capacity' rest (selection @ [story], total' + points', g')
             else sample_loop beta capacity' rest (selection, total', g'))"

definition thompson_sample ::
  "('g \<Rightarrow> normalized_story list \<Rightarrow> normalized_story list \<times> 'g)
     \<Rightarrow> ('g \<Rightarrow> real \<Rightarrow> real \<Rightarrow> real \<times> 'g) \<Rightarrow> normalized_story list \<Rightarrow> real \<Rightarrow> 'g
     \<Rightarrow> normalized_story list option \<times> normalized_story list \<times> 'g" where
  "thompson_sample shuffle beta stories capacity' g =
     (case shuffle g stories of
        (stories', g1) \<Rightarrow>
          (case sample_loop beta capacity' stories' ([], 0, g1) of
             (selection, total', g2) \<Rightarrow>
               (if selection = [] then None else Some selection, stories', g2)))"

text \<open>\<open>_calculate_value\<close> and \<open>_calculate_complexity_risk\<close>\<close>

definition calculate_value :: "normalized_story list \<Rightarrow> real" where
  "calculate_value stories =
     fold (\<lambda>story value'. value' + ns_business_value story * priority_bonus_of (ns_priority story))
          stories 0"

definition complexities :: "string \<Rightarrow> real" where
  "complexities c =
     (if c = ''low'' then 0.2 else if c = ''medium'' then 0.5
      else if c = ''high'' then 0.8 else 0.5)"

definition calculate_complexity_risk :: "normalized_story list \<Rightarrow> real" where
  "calculate_complexity_risk stories =
     (if stories = [] then 0 else np_mean (map (\<lambda>story. complexities (ns_complexity story)) stories))"

text \<open>
  \<open>optimize_story_selection\<close>: the loop over the iterations, with the list \<open>stories\<close>,
  the samples kept and the generator as its state; then the sort and the first five.
\<close>

fun selection_loop ::
  "('g \<Rightarrow> normalized_story list \<Rightarrow> normalized_story list \<times> 'g)
     \<Rightarrow> ('g \<Rightarrow> real \<Rightarrow> real \<Rightarrow> real \<times> 'g) \<Rightarrow> real \<Rightarrow> nat
     \<Rightarrow> normalized_story list \<times> normalized_story list list \<times> 'g
     \<Rightarrow> normalized_story list \<times> normalized_story list list \<times> 'g" where
  "selection_loop shuffle beta capacity' 0 (stories, best_sets, g) = (stories, best_sets, g)"
| "selection_loop shuffle beta capacity' (Suc n) (stories, best_sets, g) =
     (case thompson_sample shuffle beta stories capacity' g of
        (sample, stories', g') \<Rightarrow>
          selection_loop shuffle beta capacity' n
            (stories',
             (case sample of None \<Rightarrow> best_sets | Some selection \<Rightarrow> best_sets @ [selection]),
             g'))"

definition optimize_story_selection ::
  "('g \<Rightarrow> normalized_story list \<Rightarrow> normalized_story list \<times> 'g)
     \<Rightarrow> ('g \<Rightarrow> real \<Rightarrow> real \<Rightarrow> real \<times> 'g) \<Rightarrow> 'g \<Rightarrow> normalized_story list \<Rightarrow> real \<Rightarrow> nat
     \<Rightarrow> normalized_story list list" where
  "optimize_story_selection shuffle beta g backlog capacity' iterations =
     (let stories = filter (\<lambda>story. py_or_str (ns_blocked_by story) None = None) backlog
      in case selection_loop shuffle beta capacity' iterations (stories, [], g) of
           (stories', best_sets, g') \<Rightarrow>
             take 5 (sorted_reverse
                       (\<lambda>selection. (calculate_value selection,
                                      - calculate_complexity_risk selection))
                       best_sets))"

text \<open>\<open>_remaining_capacity\<close>, \<open>_skill_match\<close> and \<open>_find_best_assignee\<close>\<close>

definition remaining_capacity :: "member \<Rightarrow> real" where
  "remaining_capacity member =
     max (get_or (m_capacity member) 0 - get_or (m_current_workload member) 0) 0"

definition planner_skill_match :: "string list \<Rightarrow> string list \<Rightarrow> real" where
  "planner_skill_match required skills' =
     (if required = [] then 0.5
      else let set_required = set (map lower required);
               set_skills = set (map lower skills')
           in if set_skills = {} then 0
              else real (card (set_required \<inter> set_skills)) / real (card set_required))"

fun find_best_assignee_loop ::
  "normalized_story \<Rightarrow> (string \<times> member) list \<Rightarrow> real \<times> (string \<times> member) option
     \<Rightarrow> (string \<times> member) option" where
  "find_best_assignee_loop story [] (best_score, best_candidate) = best_candidate"
| "find_best_assignee_loop story ((user_id', member) # rest) (best_score, best_candidate) =
     (let remaining = remaining_capacity member
      in if remaining < ns_story_points story
         then find_best_assignee_loop story rest (best_score, best_candidate)
         else
           let skill_match = planner_skill_match (ns_required_skills story)
                               (get_or (m_skills member) []);
               capacity_bonus = remaining / max (get_or (m_capacity member) 1) 1;
               score = 0.7 * skill_match + 0.3 * capacity_bonus
           in if score > best_score
              then find_best_assignee_loop story rest (score, Some (user_id', member))
              else find_best_assignee_loop story rest (best_score, best_candidate))"

definition find_best_assignee ::
  "normalized_story \<Rightarrow> (string \<times> member) list \<Rightarrow> (string \<times> member) option" where
  "find_best_assignee story members = find_best_assignee_loop story members (- 1, None)"

text \<open>
  \<open>calculate_sprint_load\<close>: \<open>member_states\<close> holds a copy of each member under the key
  \<open>user_id or _id or str(index)\<close>; the member chosen for a story has the story's points
  added to the workload of its copy. The entry \<open>reason\<close> of an assignment is a sentence
  formatted for display and is not modelled.
\<close>

record story_assignment =
  sa_story_id :: string
  sa_title :: string
  sa_story_points :: real
  sa_priority :: string
  sa_suggested_assignee :: string

definition member_key :: "member list \<Rightarrow> member \<Rightarrow> string" where
  "member_key team_members m =
     py_or_default (py_or_str (m_user_id m) (m_underscore_id m))
       (string_of_nat (index_of team_members m))"

fun sprint_load_loop ::
  "normalized_story list \<Rightarrow> (string \<times> member) list \<times> story_assignment list
     \<Rightarrow> story_assignment list" where
  "sprint_load_loop [] (member_states, assignments) = assignments"
| "sprint_load_loop (story # rest) (member_states, assignments) =
     (case find_best_assignee story member_states of
        None \<Rightarrow> sprint_load_loop rest (member_states, assignments)
      | Some (user_id', member) \<Rightarrow>
          (let member' = member\<lparr>m_current_workload :=
                             Some (get_or (m_current_workload member) 0 + ns_story_points story)\<rparr>
           in sprint_load_loop rest
                (dict_set member_states user_id' member',
                 assignments @
                   [\<lparr>sa_story_id = (if ns_story_id story \<noteq> [] then ns_story_id story
                                     else ns_id story),
                     sa_title = ns_title story,
                     sa_story_points = ns_story_points story,
                     sa_priority = ns_priority story,
                     sa_suggested_assignee =
                       py_or_default (py_or_str (m_name member') (m_full_name member'))
                         user_id'\<rparr>])))"

definition calculate_sprint_load ::
  "normalized_story list \<Rightarrow> member list \<Rightarrow> story_assignment list" where
  "calculate_sprint_load selected_stories team_members =
     sprint_load_loop selected_stories
       (fold (\<lambda>m member_states. dict_set member_states (member_key team_members m) m)
             team_members [],
        [])"

text \<open>\<open>simulate_sprint_outcome\<close>\<close>

definition simulate_sprint_outcome ::
  "normalized_story list \<Rightarrow> story_assignment list \<Rightarrow> real" where
  "simulate_sprint_outcome stories assignments =
     (if stories = [] then 0.0
      else let base_probability = 0.6;
               complexity_risk = calculate_complexity_risk stories;
               dependency_penalty =
                 sum_list (map (\<lambda>story. 0.05) (filter (\<lambda>story. ns_dependencies story \<noteq> []) stories))
           in max 0.1 (min 0.95 (base_probability + 0.2 - complexity_risk - dependency_penalty)))"

text \<open>
  \<open>suggest_stories_for_sprint\<close>. The plan it returns has no error branch: the function
  has no \<open>raise\<close> and no statement that fails on stories and members of these types. The
  entries \<open>capacity_utilization\<close> and \<open>risk_factors\<close> of the result are sentences
  formatted for display from the same selection and are not modelled.
\<close>

record alternative_selection =
  alt_story_ids :: "string list"
  alt_total_points :: real

record sprint_plan =
  sp_suggested_stories :: "story_assignment list"
  sp_total_story_points :: real
  sp_team_capacity :: real
  sp_predicted_completion_probability :: real
  sp_alternative_selections :: "alternative_selection list"

definition suggest_stories_for_sprint ::
  "('g \<Rightarrow> normalized_story list \<Rightarrow> normalized_story list \<times> 'g)
     \<Rightarrow> ('g \<Rightarrow> real \<Rightarrow> real \<Rightarrow> real \<times> 'g) \<Rightarrow> 'g \<Rightarrow> story list \<Rightarrow> real \<Rightarrow> member list
     \<Rightarrow> sprint_plan" where
  "suggest_stories_for_sprint shuffle beta g backlog team_capacity team_members =
     (let normalized_backlog = map normalize_story backlog;
          effective_capacity = calculate_team_capacity team_members team_capacity;
          candidate_sets =
            optimize_story_selection shuffle beta g normalized_backlog effective_capacity 200;
          best_selection = (case candidate_sets of [] \<Rightarrow> [] | c # cs \<Rightarrow> c);
          total_points = sum_list (map story_effort best_selection);
          assignments = calculate_sprint_load best_selection team_members;
          completion_probability = simulate_sprint_outcome best_selection assignments
      in \<lparr>sp_suggested_stories = assignments,
          sp_total_story_points = total_points,
          sp_team_capacity = effective_capacity,
          sp_predicted_completion_probability = completion_probability,
          sp_alternative_selections =
            map (\<lambda>combo. \<lparr>alt_story_ids =
                             map (\<lambda>s. if ns_story_id s \<noteq> [] then ns_story_id s else ns_id s)
                                 combo,
                           alt_total_points = sum_list (map story_effort combo)\<rparr>)
                (take 3 (drop 1 candidate_sets))\<rparr>)"

text \<open>
  A generator for the examples: its state counts the draws from the beta distribution,
  the shuffle leaves the list as it is, and the first two draws are 0.5 and the later
  ones 0.3. One story of 3 points, and one member.
\<close>

definition fixed_shuffle :: "nat \<Rightarrow> normalized_story list \<Rightarrow> normalized_story list \<times> nat" where
  "fixed_shuffle g stories = (stories, g)"

definition early_beta :: "nat \<Rightarrow> real \<Rightarrow> real \<Rightarrow> real \<times> nat" where
  "early_beta g a b = (if g < 2 then 0.5 else 0.3, Suc g)"

definition story0 :: story where
  "story0 = \<lparr>st_story_id = Some ''s1'', st_id = None, st_underscore_id = None,
              st_title = Some ''login'', st_story_points = Some 3, st_points = None,
              st_priority = None, st_complexity = None, st_business_value = None,
              st_blocked_by = None, st_dependencies = None, st_required_skills = None\<rparr>"

definition member0 :: member where
  "member0 = \<lparr>m_user_id = Some ''u1'', m_underscore_id = None, m_name = Some ''Ann'',
               m_full_name = None, m_skills = None, m_capacity = Some 10,
               m_current_workload = None, m_on_vacation = None\<rparr>"

section \<open>Verified properties of the assignee scorer\<close>

lemma ratio_le_1: "(a::nat) \<le> b \<Longrightarrow> real a / real b \<le> 1"
  by (cases "b = 0") (simp_all add: divide_le_eq_1)

lemma calculate_skill_match_range:
  assumes ne: "rs \<noteq> []"
  shows "0.2 \<le> calculate_skill_match rs ds \<and> calculate_skill_match rs ds \<le> 1"
proof -
  let ?R = "set (map lower rs)" and ?D = "set (map lower ds)"
  define q where "q = real (card (?R \<inter> ?D)) / real (card (?R \<union> ?D))"
  have "card (?R \<inter> ?D) \<le> card (?R \<union> ?D)"
    by (rule card_mono) auto
  then have "q \<le> 1" unfolding q_def
    by (rule ratio_le_1)
  moreover have "calculate_skill_match rs ds = 0.2 \<or> calculate_skill_match rs ds = max 0.2 q"
    using ne unfolding calculate_skill_match_def Let_def q_def by presburger
  ultimately show ?thesis
    by (auto simp: max_def)
qed

lemma score_developer_confidence:
  assumes "score_developer clf t d = Inr r"
  shows "confidence r =
    (if weighted_score t d < 0.2 \<and> predict_probability clf (feature_vector t d) < 0.2
     then min 1 (max 0.3 (0.35 + weighted_score t d * 0.3))
     else min 1 (max 0.3 (0.6 * weighted_score t d
                          + 0.4 * predict_probability clf (feature_vector t d))))"
proof (cases "py_or_str (user_id d) (underscore_id d)")
  case None
  with assms show ?thesis
    unfolding score_developer_def Let_def
    by (simp only: option.case prod.case_distrib sum.distinct split: prod.splits)
next
  case (Some u)
  obtain a b c where w: "calculate_workload_score d = (a, b, c)"
    by (cases "calculate_workload_score d") auto
  from assms have "r = \<lparr>rec_user = u,
      confidence =
        (if weighted_score t d < 0.2 \<and> predict_probability clf (feature_vector t d) < 0.2
         then min 1 (max 0.3 (0.35 + weighted_score t d * 0.3))
         else min 1 (max 0.3 (0.6 * weighted_score t d
                              + 0.4 * predict_probability clf (feature_vector t d)))),
      workload_impact = b,
      skill_match_score = calculate_skill_match (effective_required_skills t) (skills d),
      performance_score = calculate_performance_score d,
      workload_score = a\<rparr>"
    unfolding score_developer_def Let_def w Some
    by (simp only: prod.case option.case sum.inject)
  then show ?thesis by (simp only: recommendation.select_convs)
qed

lemma clamp_03_1: "3/10 \<le> min 1 (max (3/10) (x::real)) \<and> min 1 (max (3/10) x) \<le> 1"
  by (simp add: min_def max_def)

text \<open>
  Claim C3. Whenever the scorer returns a recommendation, its confidence lies between
  0.3 and 1.0; and for a non-empty list of required skills the skill-match score lies
  between 0.2 and 1.0.
\<close>

theorem confidence_and_skill_match_bounds:
  "(score_developer clf t d = Inr r \<longrightarrow> 0.3 \<le> confidence r \<and> confidence r \<le> 1) \<and>
   (rs \<noteq> [] \<longrightarrow> 0.2 \<le> calculate_skill_match rs ds \<and> calculate_skill_match rs ds \<le> 1)"
proof (intro conjI impI)
  assume a: "score_developer clf t d = Inr r"
  have "\<exists>x. confidence r = min 1 (max (3/10) x)"
  proof (cases "weighted_score t d < 0.2 \<and> predict_probability clf (feature_vector t d) < 0.2")
    case True
    have "confidence r = min 1 (max (3/10) (0.35 + weighted_score t d * 0.3))"
      unfolding score_developer_confidence [OF a] using True by (simp only: if_P if_True simp_thms)
    then show ?thesis ..
  next
    case False
    have "confidence r = min 1 (max (3/10) (0.6 * weighted_score t d
                            + 0.4 * predict_probability clf (feature_vector t d)))"
      unfolding score_developer_confidence [OF a] using False by (simp only: if_not_P if_False simp_thms)
    then show ?thesis ..
  qed
  then obtain x where x: "confidence r = min 1 (max (3/10) x)" ..
  show "0.3 \<le> confidence r" "confidence r \<le> 1"
    using clamp_03_1 [of x] unfolding x by simp_all
next
  assume "rs \<noteq> []"
  then show "0.2 \<le> calculate_skill_match rs ds" "calculate_skill_match rs ds \<le> 1"
    using calculate_skill_match_range [of rs ds] by simp_all
qed

theorem confidence_and_skill_match_bounds_witness:
  "score_developer None task0 dev0 = Inr rec0 \<and>
   0.3 \<le> confidence rec0 \<and> confidence rec0 \<le> 1 \<and>
   [''Python''] \<noteq> [] \<and>
   0.2 \<le> calculate_skill_match [''Python''] [''python'', ''go''] \<and>
   calculate_skill_match [''Python''] [''python'', ''go''] \<le> 1"
proof -
  have h: "score_developer None task0 dev0 = Inr rec0"
    by code_simp
  show ?thesis
    using h confidence_and_skill_match_bounds
            [of None task0 dev0 rec0 "[''Python'']" "[''python'', ''go'']"]
    by simp
qed

text \<open>
  Claim C4. For a developer with positive capacity the workload score is the clamp of
  \<open>(1 - utilization) * m\<close>, where the multiplier \<open>m\<close> is 1.3 up to a utilization of 0.3.
  The code tests \<open>utilization <= 0.5\<close> first, so at a utilization of 0.25 (workload 10,
  capacity 40) it multiplies by 1.2 and returns 0.9, where the claim gives 0.975.
\<close>

theorem calculate_workload_score_quarter_utilization:
  "calculate_workload_score (dev0\<lparr>capacity := Some 40, current_workload := Some 10\<rparr>)
     = (9/10, 1/4, 30) \<and>
   workload_score_spec 10 40 = 39/40"
  by code_simp

text \<open>
  Claim C5, as stated: with no trained model the confidence is the clamp of the heuristic
  score alone. For the developer and task with every optional key absent the heuristic
  score is 0.644 and the confidence is 5597/11250, so the claim fails there.
\<close>

theorem fallback_confidence_counterexample:
  "confidence_of (score_developer None task0 dev0) = Some (5597/11250) \<and>
   min 1 (max 0.3 (weighted_score task0 dev0)) = 161/250"
  by code_simp

text \<open>
  Claim C5, amended. With no trained model the probability is the arithmetic mean of the
  nine-element feature vector, and the confidence is the clamp to [0.3, 1.0] of
  \<open>0.6 * heuristic + 0.4 * mean\<close>, or of \<open>0.35 + 0.3 * heuristic\<close> when both the
  heuristic score and the mean are below 0.2.
\<close>

theorem fallback_confidence_blend:
  "score_developer None t d = Inr r \<Longrightarrow>
   confidence r =
     (if weighted_score t d < 0.2 \<and> np_mean (feature_vector t d) < 0.2
      then min 1 (max 0.3 (0.35 + weighted_score t d * 0.3))
      else min 1 (max 0.3 (0.6 * weighted_score t d + 0.4 * np_mean (feature_vector t d))))"
  using score_developer_confidence [of None t d r]
  by (simp only: predict_probability_def option.case)

theorem fallback_confidence_blend_witness:
  "score_developer None task0 dev0 = Inr rec0 \<and>
   confidence rec0 = min 1 (max 0.3 (0.6 * (161/250) + 0.4 * (5/18)))"
proof -
  have h: "score_developer None task0 dev0 = Inr rec0"
    by code_simp
  have w: "weighted_score task0 dev0 = 161/250"
    by code_simp
  have m: "np_mean (feature_vector task0 dev0) = 5/18"
    by code_simp
  have "\<not> ((161/250 :: real) < 0.2 \<and> (5/18 :: real) < 0.2)"
    by simp
  then show ?thesis
    using h fallback_confidence_blend [OF h] unfolding w m by simp
qed

section \<open>Verified properties of the workload balancer\<close>

lemma sum_sq_dev:
  "sum_list (map (\<lambda>x. (x - m)\<^sup>2) xs) =
     sum_list (map (\<lambda>x. x\<^sup>2) xs) - 2 * m * sum_list xs + real (length xs) * m\<^sup>2"
  for m :: real
  by (induction xs) (simp_all add: power2_eq_square algebra_simps)

lemma sum_sq_le_sum:
  "\<forall>x \<in> set xs. 0 \<le> x \<and> x \<le> 1 \<Longrightarrow> sum_list (map (\<lambda>x. x\<^sup>2) xs) \<le> sum_list xs"
  for xs :: "real list"
proof (induction xs)
  case Nil
  then show ?case by simp
next
  case (Cons a xs)
  have "a\<^sup>2 \<le> a" using Cons.prems by (simp add: power2_eq_square mult_left_le)
  with Cons show ?case by simp
qed

lemma np_var_nonneg: "0 \<le> np_var xs"
  unfolding np_var_def np_mean_def
  by (intro divide_nonneg_nonneg sum_list_nonneg) auto

text \<open>The variance of numbers between 0 and 1 is at most a quarter.\<close>

lemma np_var_unit_interval:
  assumes ne: "xs \<noteq> []" and r: "\<forall>x \<in> set xs. 0 \<le> x \<and> x \<le> 1"
  shows "np_var xs \<le> 1/4"
proof -
  define n where "n = real (length xs)"
  define m where "m = sum_list xs / n"
  have n: "0 < n" using ne by (simp add: n_def)
  have s: "sum_list xs = n * m" using n by (simp add: m_def)
  have "np_var xs = sum_list (map (\<lambda>x. (x - m)\<^sup>2) xs) / n"
    by (simp add: np_var_def np_mean_def m_def n_def)
  also have "\<dots> = (sum_list (map (\<lambda>x. x\<^sup>2) xs) - 2 * m * (n * m) + n * m\<^sup>2) / n"
    by (simp add: sum_sq_dev s n_def)
  also have "\<dots> = sum_list (map (\<lambda>x. x\<^sup>2) xs) / n - m\<^sup>2"
    using n by (simp add: field_simps power2_eq_square)
  also have "\<dots> \<le> sum_list xs / n - m\<^sup>2"
    using sum_sq_le_sum [OF r] n by (simp add: divide_right_mono)
  also have "\<dots> = m - m\<^sup>2" by (simp add: m_def)
  also have "\<dots> \<le> 1/4"
  proof -
    have "0 \<le> (m - 1/2)\<^sup>2" by simp
    then show ?thesis by (simp add: power2_eq_square algebra_simps)
  qed
  finally show ?thesis .
qed

text \<open>
  Claim C10, as stated: every non-empty team state has a balance score of at least 0.75.
  The utilization is only capped at 1 (\<open>min(..., 1.0)\<close>), not floored at 0: with workloads
  of -100 and 0 on capacity 1 the variance is 2500 and the score is 0.
\<close>

theorem balance_score_counterexample:
  "team_neg \<noteq> [] \<and> calculate_balance_score team_neg = 0"
  by code_simp

text \<open>
  Claim C10, amended. For every non-empty team state in which no member has a negative
  current workload, the balance score lies between 0.75 and 1.0.
\<close>

theorem balance_score_bounds:
  assumes ne: "team_state \<noteq> []"
    and nonneg: "\<forall>(uid, member) \<in> set team_state. 0 \<le> get_or (current_workload member) 0"
  shows "3/4 \<le> calculate_balance_score team_state \<and> calculate_balance_score team_state \<le> 1"
proof -
  define workloads where "workloads =
            map (\<lambda>(uid, member).
                   min (get_or (current_workload member) 0
                          / max (get_or (capacity member) (1/1000)) (1/1000)) (1::real))
                team_state"
  have w: "workloads \<noteq> []" using ne by (simp add: workloads_def)
  have r: "\<forall>x \<in> set workloads. 0 \<le> x \<and> x \<le> 1"
  proof
    fix x assume "x \<in> set workloads"
    then obtain uid member where um: "(uid, member) \<in> set team_state"
      and x: "x = min (get_or (current_workload member) 0
                          / max (get_or (capacity member) (1/1000)) (1/1000)) 1"
      by (auto simp: workloads_def)
    have "0 \<le> get_or (current_workload member) 0" using nonneg um by auto
    moreover have "0 < max (get_or (capacity member) (1/1000)) (1/1000 :: real)"
      by (simp add: max_def)
    ultimately have "0 \<le> get_or (current_workload member) 0
                          / max (get_or (capacity member) (1/1000)) (1/1000)"
      by (intro divide_nonneg_pos)
    then show "0 \<le> x \<and> x \<le> 1" unfolding x by (simp add: min_def)
  qed
  have v1: "np_var workloads \<le> 1/4" by (rule np_var_unit_interval [OF w r])
  have v0: "0 \<le> np_var workloads" by (rule np_var_nonneg)
  have "calculate_balance_score team_state = max 0 (1 - np_var workloads)"
    using w unfolding calculate_balance_score_def workloads_def [symmetric] Let_def
    by (simp only: if_not_P if_False)
  then show ?thesis using v0 v1 by (simp add: max_def)
qed

theorem balance_score_bounds_witness:
  "team2 \<noteq> [] \<and>
   3/4 \<le> calculate_balance_score team2 \<and> calculate_balance_score team2 \<le> 1 \<and>
   calculate_balance_score team2 = 3/4"
proof -
  have ne: "team2 \<noteq> []" by (simp add: team2_def)
  have nonneg: "\<forall>(uid, member) \<in> set team2. 0 \<le> get_or (current_workload member) 0"
    by (simp add: team2_def dev0_def get_or_def)
  have v: "calculate_balance_score team2 = 3/4" by code_simp
  show ?thesis using ne nonneg v balance_score_bounds [OF ne nonneg] by simp
qed

section \<open>Verified properties of the dependency analyzer\<close>

text \<open>
  Claim C9. No graph operation changes the stored state of the analyzer: after
  \<open>parallel_execution\<close> the in-degree map is as before, and \<open>topological_sort\<close> returns
  what it returned before. \<open>topological_sort\<close> works on a copy of \<open>self.in_degree\<close>,
  but \<open>parallel_execution\<close> decrements \<open>self.in_degree\<close> itself. For the tasks B
  (depending on A) and A, the count of B is 1 before and 0 after the call, and
  \<open>topological_sort\<close> returns A, B before and B, A after.
\<close>

theorem parallel_execution_changes_in_degree:
  "an_in_degree (DependencyAnalyzer tasks_BA) = [(''B'', 1)] \<and>
   an_in_degree (snd (parallel_execution (DependencyAnalyzer tasks_BA))) = [(''B'', 0)] \<and>
   topological_sort (DependencyAnalyzer tasks_BA) = Inr [''A'', ''B''] \<and>
   topological_sort (snd (parallel_execution (DependencyAnalyzer tasks_BA)))
     = Inr [''B'', ''A'']"
  by code_simp

section \<open>Verified properties of calls with an empty backlog or an empty roster\<close>

text \<open>
  Claim C7, as stated: a call with an empty task list or an empty roster fails with a
  ValidationError. \<open>balance_workload\<close> on an empty task list returns the empty plan.
\<close>

theorem balance_workload_empty_counterexample:
  "balance_workload (\<lambda>x. x) None [] [dev0] = Inr empty_plan \<and>
   balance_workload (\<lambda>x. x) None [] [dev0] \<noteq> Inl ValidationError"
  by (simp add: balance_workload_def empty_plan_def)

text \<open>The planner's loops on an empty list of stories and on an empty roster.\<close>

lemma thompson_sample_empty:
  assumes "\<forall>g. fst (shuffle g []) = []"
  shows "\<exists>g'. thompson_sample shuffle beta [] capacity' g = (None, [], g')"
proof -
  obtain stories' g1 where s: "shuffle g [] = (stories', g1)" by (cases "shuffle g []")
  with assms have "stories' = []" by (metis fst_conv)
  with s show ?thesis by (simp add: thompson_sample_def)
qed

lemma selection_loop_empty:
  assumes "\<forall>g. fst (shuffle g []) = []"
  shows "\<exists>g'. selection_loop shuffle beta capacity' n ([], best_sets, g) = ([], best_sets, g')"
proof (induction n arbitrary: g)
  case 0
  then show ?case by simp
next
  case (Suc n)
  obtain g1 where "thompson_sample shuffle beta [] capacity' g = (None, [], g1)"
    using thompson_sample_empty [of shuffle beta capacity' g] assms by blast
  then show ?case using Suc.IH [of g1] by simp
qed

lemma optimize_story_selection_empty:
  assumes "\<forall>g. fst (shuffle g []) = []"
  shows "optimize_story_selection shuffle beta g [] capacity' iterations = []"
proof -
  obtain g' where "selection_loop shuffle beta capacity' iterations ([], [], g) = ([], [], g')"
    using selection_loop_empty [of shuffle beta capacity' iterations "[]" g] assms by blast
  then show ?thesis by (simp add: optimize_story_selection_def sorted_reverse_def)
qed

lemma sprint_load_loop_no_members:
  "sprint_load_loop stories ([], assignments) = assignments"
  by (induction stories) (simp_all add: find_best_assignee_def)

lemma calculate_sprint_load_no_members: "calculate_sprint_load stories [] = []"
  by (simp add: calculate_sprint_load_def sprint_load_loop_no_members)

lemma calculate_sprint_load_no_stories: "calculate_sprint_load [] team_members = []"
  by (simp add: calculate_sprint_load_def)

lemma calculate_team_capacity_no_members: "calculate_team_capacity [] fallback = fallback"
  by (simp add: calculate_team_capacity_def py_or_def)

text \<open>
  Claim C7, amended. No call with an empty task list, backlog or roster raises an
  error; each returns a plan. \<open>balance_workload\<close> called with an empty task list or an
  empty roster returns at once the empty plan (no assignments, balance score 0.0, no
  utilization rows), and \<open>get_recommendations\<close> called with an empty roster returns the
  empty list of recommendations. \<open>suggest_stories_for_sprint\<close> has no guard: with an
  empty backlog (a shuffle of the empty list being empty) it returns the plan with no
  suggested stories, 0 story points, completion probability 0.0, no alternative
  selections, and the capacity computed from the roster; with an empty roster it
  returns a plan with no suggested stories and the capacity of the request, whose story
  points (and alternative selections) are those of the selections sampled from the
  backlog, so the plan can be partly filled.
\<close>

theorem empty_input_returns_plan:
  "(tasks = [] \<or> team_members = [] \<longrightarrow>
      balance_workload round2 clf tasks team_members = Inr empty_plan) \<and>
   get_recommendations round2 clf t [] top_n = Inr [] \<and>
   ((\<forall>g. fst (shuffle g []) = []) \<longrightarrow>
      suggest_stories_for_sprint shuffle beta g0 [] team_capacity members =
        \<lparr>sp_suggested_stories = [], sp_total_story_points = 0,
          sp_team_capacity = calculate_team_capacity members team_capacity,
          sp_predicted_completion_probability = 0, sp_alternative_selections = []\<rparr>) \<and>
   sp_suggested_stories
     (suggest_stories_for_sprint shuffle beta g0 backlog team_capacity []) = [] \<and>
   sp_team_capacity
     (suggest_stories_for_sprint shuffle beta g0 backlog team_capacity []) = team_capacity \<and>
   sp_total_story_points
     (suggest_stories_for_sprint shuffle beta g0 backlog team_capacity []) =
     sum_list (map story_effort
       (case optimize_story_selection shuffle beta g0 (map normalize_story backlog)
               team_capacity 200 of
          [] \<Rightarrow> [] | c # cs \<Rightarrow> c))"
proof -
  have balance: "tasks = [] \<or> team_members = [] \<longrightarrow>
      balance_workload round2 clf tasks team_members = Inr empty_plan"
    by (simp add: balance_workload_def empty_plan_def)
  have recommend: "get_recommendations round2 clf t [] top_n = Inr []"
    by (simp add: get_recommendations_def)
  have backlog: "suggest_stories_for_sprint shuffle beta g0 [] team_capacity members =
        \<lparr>sp_suggested_stories = [], sp_total_story_points = 0,
          sp_team_capacity = calculate_team_capacity members team_capacity,
          sp_predicted_completion_probability = 0, sp_alternative_selections = []\<rparr>"
    if "\<forall>g. fst (shuffle g []) = []"
  proof -
    have "optimize_story_selection shuffle beta g0 []
            (calculate_team_capacity members team_capacity) 200 = []"
      using that optimize_story_selection_empty [of shuffle] by blast
    then show ?thesis
      by (simp add: suggest_stories_for_sprint_def Let_def calculate_sprint_load_no_stories
            simulate_sprint_outcome_def)
  qed
  have roster: "suggest_stories_for_sprint shuffle beta g0 backlog team_capacity [] =
      (let candidate_sets = optimize_story_selection shuffle beta g0
                              (map normalize_story backlog) team_capacity 200;
           best_selection = (case candidate_sets of [] \<Rightarrow> [] | c # cs \<Rightarrow> c)
       in \<lparr>sp_suggested_stories = [],
           sp_total_story_points = sum_list (map story_effort best_selection),
           sp_team_capacity = team_capacity,
           sp_predicted_completion_probability = simulate_sprint_outcome best_selection [],
           sp_alternative_selections =
             map (\<lambda>combo. \<lparr>alt_story_ids =
                              map (\<lambda>s. if ns_story_id s \<noteq> [] then ns_story_id s else ns_id s)
                                  combo,
                            alt_total_points = sum_list (map story_effort combo)\<rparr>)
                 (take 3 (drop 1 candidate_sets))\<rparr>)"
    by (simp only: suggest_stories_for_sprint_def calculate_team_capacity_no_members
          calculate_sprint_load_no_members Let_def)
  show ?thesis
    using balance recommend backlog by (simp add: roster Let_def)
qed

text \<open>
  With an empty roster and the one-story backlog, the plan suggests no story but counts
  the 3 points of the sampled selection.
\<close>

theorem empty_input_returns_plan_witness:
  "([task0] = [] \<or> ([] :: developer list) = []) \<and>
   balance_workload (\<lambda>x. x) None [task0] [] = Inr empty_plan \<and>
   get_recommendations (\<lambda>x. x) None task0 [] 3 = Inr [] \<and>
   suggest_stories_for_sprint fixed_shuffle early_beta 0 [] 10 [member0] =
     \<lparr>sp_suggested_stories = [], sp_total_story_points = 0, sp_team_capacity = 10,
       sp_predicted_completion_probability = 0, sp_alternative_selections = []\<rparr> \<and>
   suggest_stories_for_sprint fixed_shuffle early_beta 0 [story0] 10 [] =
     \<lparr>sp_suggested_stories = [], sp_total_story_points = 3, sp_team_capacity = 10,
       sp_predicted_completion_probability = 3 / 10,
       sp_alternative_selections = [\<lparr>alt_story_ids = [''s1''], alt_total_points = 3\<rparr>]\<rparr>"
proof -
  have shuffle: "\<forall>g. fst (fixed_shuffle g []) = []"
    by (simp add: fixed_shuffle_def)
  have capacity: "calculate_team_capacity [member0] 10 = 10"
    by code_simp
  have plan: "suggest_stories_for_sprint fixed_shuffle early_beta 0 [story0] 10 [] =
     \<lparr>sp_suggested_stories = [], sp_total_story_points = 3, sp_team_capacity = 10,
       sp_predicted_completion_probability = 3 / 10,
       sp_alternative_selections = [\<lparr>alt_story_ids = [''s1''], alt_total_points = 3\<rparr>]\<rparr>"
    by code_simp
  show ?thesis
    using empty_input_returns_plan [where tasks = "[task0]" and team_members = "[]"
        and ?round2.0 = "\<lambda>x. x" and clf = None and t = task0 and top_n = 3
        and shuffle = fixed_shuffle and beta = early_beta and ?g0.0 = 0
        and team_capacity = 10 and members = "[member0]" and backlog = "[story0]"]
    by (simp only: shuffle capacity plan simp_thms)
qed

section \<open>Verified properties of the program-increment optimizer\<close>














text \<open>
  Sprints whose ids are the integers 1 and 2: the capacities are stored under the
  integers and read under the strings \<open>"1"\<close> and \<open>"2"\<close>, so every capacity reads as 0,
  no sprint has room, and both features go to the first sprint.
\<close>

lemma optimize_integer_sprint_ids:
  "optimize features_BA sprints_int deps_B_on_A =
     Inr [\<lparr>featureId = ''A'', sprintId = ''1'', points = 8\<rparr>,
          \<lparr>featureId = ''B'', sprintId = ''1'', points = 3\<rparr>]"
  by code_simp

subsection \<open>Cycle detection\<close>

lemma closed_reach:
  assumes cl: "\<forall>n \<in> B. set (graph_get g n) \<subseteq> B"
    and r: "(m, y) \<in> (graph_edges g)\<^sup>*" and m: "m \<in> B"
  shows "y \<in> B"
  using r m
proof (induction rule: rtrancl_induct)
  case base
  then show ?case by simp
next
  case (step y z)
  then have "y \<in> B" by simp
  moreover have "z \<in> set (graph_get g y)" using step.hyps(2) by (simp add: graph_edges_def)
  ultimately show ?case using cl by auto
qed

lemma dfs_inv_finish:
  assumes inv1: "dfs_inv g v' (insert node s)" and ns: "node \<notin> s"
    and nv: "node \<in> v'"
    and succ: "set (graph_get g node) \<subseteq> v' - insert node s"
  shows "dfs_inv g v' s"
proof -
  let ?B = "v' - insert node s"
  have cl: "\<forall>n \<in> ?B. set (graph_get g n) \<subseteq> ?B"
    using inv1 by (simp add: dfs_inv_def)
  have no_cycle: "(node, node) \<notin> (graph_edges g)\<^sup>+"
  proof
    assume "(node, node) \<in> (graph_edges g)\<^sup>+"
    then obtain m where e: "(node, m) \<in> graph_edges g" and r: "(m, node) \<in> (graph_edges g)\<^sup>*"
      by (meson tranclD)
    have "m \<in> ?B" using e succ by (auto simp: graph_edges_def)
    then have "node \<in> ?B" using closed_reach [OF cl r] by simp
    then show False by simp
  qed
  have "v' - s = insert node ?B" using ns nv by auto
  moreover have "s \<subseteq> v'" using inv1 by (auto simp: dfs_inv_def)
  ultimately show ?thesis
    using inv1 succ no_cycle unfolding dfs_inv_def by auto
qed

declare dfs.simps [simp del]

lemma dfs_false:
  "dfs_inv g (fst st) (snd st) \<Longrightarrow> node \<notin> fst st \<Longrightarrow> dfs g node st = (False, v', s') \<Longrightarrow>
     dfs_inv g v' s' \<and> s' = snd st \<and> fst st \<subseteq> v' \<and> node \<in> v'"
  "dfs_inv g (fst st) (snd st) \<Longrightarrow> dfs_neighbors g ns st = (False, v', s') \<Longrightarrow>
     dfs_inv g v' s' \<and> s' = snd st \<and> fst st \<subseteq> v' \<and> set ns \<subseteq> v' - s'"
proof (induction g node st and g ns st arbitrary: v' s' and v' s' rule: dfs_dfs_neighbors.induct)
  case (1 g node visited rec_stack)
  have nv: "node \<notin> visited" using "1.prems"(2) by simp
  have sv: "rec_stack \<subseteq> visited" using "1.prems"(1) by (simp add: dfs_inv_def)
  then have ns: "node \<notin> rec_stack" using nv by auto
  obtain b v1 s1 where r: "dfs_neighbors g (graph_get g node)
      (insert node visited, insert node rec_stack) = (b, v1, s1)"
    by (metis prod_cases3)
  have b: "b = False" and v': "v' = v1" and s': "s' = s1 - {node}"
    using "1.prems"(3) r by (auto simp: dfs.simps split: bool.splits)
  have "insert node visited - insert node rec_stack = visited - rec_stack"
    using nv by auto
  then have inv0: "dfs_inv g (insert node visited) (insert node rec_stack)"
    using "1.prems"(1) sv by (auto simp: dfs_inv_def)
  have r': "dfs_neighbors g (graph_get g node) (insert node visited, insert node rec_stack)
              = (False, v1, s1)"
    using r unfolding b .
  have ih: "dfs_inv g v1 s1 \<and> s1 = insert node rec_stack \<and> insert node visited \<subseteq> v1
              \<and> set (graph_get g node) \<subseteq> v1 - s1"
    using "1.IH" [OF _ r'] inv0 by auto
  have "dfs_inv g v1 rec_stack"
    using dfs_inv_finish [of g v1 node rec_stack] ih ns by auto
  moreover have "s' = rec_stack" using s' ih ns by auto
  ultimately show ?case using ih v' by auto
next
  case (2 g st)
  then show ?case by (cases st) auto
next
  case (3 g neighbor rest visited rec_stack)
  show ?case
  proof (cases "neighbor \<in> visited")
    case True
    then have nst: "neighbor \<notin> rec_stack"
      using "3.prems"(2) by (auto split: if_splits)
    have r: "dfs_neighbors g rest (visited, rec_stack) = (False, v', s')"
      using "3.prems"(2) True nst by simp
    have ih: "dfs_inv g v' s' \<and> s' = rec_stack \<and> visited \<subseteq> v' \<and> set rest \<subseteq> v' - s'"
      using "3.IH"(3) [OF _ nst _ r] True "3.prems"(1) by auto
    then show ?thesis using True nst by auto
  next
    case False
    obtain b v1 s1 where d: "dfs g neighbor (visited, rec_stack) = (b, v1, s1)"
      by (metis prod_cases3)
    have b: "b = False" and r: "dfs_neighbors g rest (v1, s1) = (False, v', s')"
      using "3.prems"(2) False d by (auto split: bool.splits)
    have d': "dfs g neighbor (visited, rec_stack) = (False, v1, s1)"
      using d unfolding b .
    have ih1: "dfs_inv g v1 s1 \<and> s1 = rec_stack \<and> visited \<subseteq> v1 \<and> neighbor \<in> v1"
      using "3.IH"(1) [OF False _ _ d'] False "3.prems"(1) by auto
    have ih2: "dfs_inv g v' s' \<and> s' = s1 \<and> v1 \<subseteq> v' \<and> set rest \<subseteq> v' - s'"
      using "3.IH"(2) [OF False d' [symmetric] refl _ r] ih1 by auto
    have "rec_stack \<subseteq> visited" using "3.prems"(1) by (simp add: dfs_inv_def)
    then have "neighbor \<notin> rec_stack" using False by auto
    then show ?thesis using ih1 ih2 by auto
  qed
qed

lemma detect_loop_false:
  "dfs_inv g v {} \<Longrightarrow> \<not> detect_loop g nodes (v, {}) \<Longrightarrow>
     \<exists>v'. dfs_inv g v' {} \<and> v \<union> set nodes \<subseteq> v'"
proof (induction nodes arbitrary: v)
  case Nil
  then show ?case by auto
next
  case (Cons node nodes)
  show ?case
  proof (cases "node \<in> v")
    case True
    then have "\<not> detect_loop g nodes (v, {})" using Cons.prems(2) by simp
    then obtain v' where "dfs_inv g v' {} \<and> v \<union> set nodes \<subseteq> v'"
      using Cons.IH [OF Cons.prems(1)] by blast
    then show ?thesis using True by auto
  next
    case False
    obtain b v1 s1 where d: "dfs g node (v, {}) = (b, v1, s1)" by (metis prod_cases3)
    have b: "b = False" and r: "\<not> detect_loop g nodes (v1, s1)"
      using Cons.prems(2) False d by (auto split: bool.splits)
    have d': "dfs g node (v, {}) = (False, v1, s1)"
      using d unfolding b .
    have ih1: "dfs_inv g v1 s1 \<and> s1 = {} \<and> v \<subseteq> v1 \<and> node \<in> v1"
      using dfs_false(1) [OF _ _ d'] Cons.prems(1) False by auto
    then obtain v' where "dfs_inv g v' {} \<and> v1 \<union> set nodes \<subseteq> v'"
      using Cons.IH [of v1] r by auto
    then show ?thesis using ih1 by auto
  qed
qed

text \<open>
  Claim C6, as stated: on a graph with a cycle \<open>detect_cycles\<close> returns the cycle path.
  It returns a boolean: the result for the cycle A, B is the result for the cycle C, D.
\<close>

theorem detect_cycles_counterexample:
  "detect_cycles (DependencyAnalyzer tasks_AB_cycle) = True \<and>
   detect_cycles (DependencyAnalyzer tasks_CD_cycle) = True"
  by code_simp

text \<open>
  Claim C6, amended. For every stored graph that contains a directed cycle,
  \<open>detect_cycles\<close> returns \<open>True\<close>.
\<close>

theorem detect_cycles_complete:
  assumes cyc: "(x, x) \<in> (graph_edges (an_graph a))\<^sup>+"
  shows "detect_cycles a"
proof (rule ccontr)
  let ?g = "an_graph a"
  assume "\<not> detect_cycles a"
  then have "\<not> detect_loop ?g (map fst ?g) ({}, {})" by (simp add: detect_cycles_def)
  moreover have "dfs_inv ?g {} {}" by (simp add: dfs_inv_def)
  ultimately obtain v' where inv: "dfs_inv ?g v' {}" and keys: "set (map fst ?g) \<subseteq> v'"
    using detect_loop_false [of ?g "{}" "map fst ?g"] by auto
  obtain m where "(x, m) \<in> graph_edges ?g" using cyc by (meson tranclD)
  then have "graph_get ?g x \<noteq> []" by (auto simp: graph_edges_def)
  then have "map_of ?g x \<noteq> None"
    by (cases "map_of ?g x") (auto simp: graph_get_def get_or_def)
  then have "x \<in> set (map fst ?g)" by (auto dest: map_of_SomeD intro: rev_image_eqI)
  then have "x \<in> v'" using keys by auto
  then have "(x, x) \<notin> (graph_edges ?g)\<^sup>+" using inv by (simp add: dfs_inv_def)
  then show False using cyc by simp
qed

theorem detect_cycles_complete_witness:
  "(''A'', ''A'') \<in> (graph_edges (an_graph (DependencyAnalyzer tasks_AB_cycle)))\<^sup>+ \<and>
   detect_cycles (DependencyAnalyzer tasks_AB_cycle)"
proof -
  have g: "an_graph (DependencyAnalyzer tasks_AB_cycle) = [(''B'', [''A'']), (''A'', [''B''])]"
    by code_simp
  have "(''A'', ''B'') \<in> graph_edges (an_graph (DependencyAnalyzer tasks_AB_cycle))"
    unfolding g by (simp add: graph_edges_def graph_get_def get_or_def)
  moreover have "(''B'', ''A'') \<in> graph_edges (an_graph (DependencyAnalyzer tasks_AB_cycle))"
    unfolding g by (simp add: graph_edges_def graph_get_def get_or_def)
  ultimately have c: "(''A'', ''A'') \<in> (graph_edges (an_graph (DependencyAnalyzer tasks_AB_cycle)))\<^sup>+"
    by (rule trancl_into_trancl2 [OF _ r_into_trancl])
  show ?thesis using c detect_cycles_complete [OF c] by simp
qed

subsection \<open>Topological order\<close>

lemma dict_set_keys: "fst ` set (dict_set d k v) = insert k (fst ` set d)"
  by (simp add: dom_map_of_conv_image_fst [symmetric] map_of_dict_set)

lemma graph_get_nil: "graph_get [] a = []"
  by (simp add: graph_get_def get_or_def)

lemma int_get_nil: "int_get [] b = 0"
  by (simp add: int_get_def get_or_def)

lemma dict_set_distinct: "distinct (map fst d) \<Longrightarrow> distinct (map fst (dict_set d k v))"
  by (induction d) (auto simp: dict_set_keys)

lemma graph_get_dict_set:
  "graph_get (dict_set g k v) k' = (if k' = k then v else graph_get g k')"
  by (simp add: graph_get_def map_of_dict_set get_or_def)

lemma graph_get_append:
  "graph_get (graph_append g k v) k' = (if k' = k then graph_get g k @ [v] else graph_get g k')"
  by (simp add: graph_append_def graph_get_dict_set)

lemma graph_append_distinct:
  "distinct (map fst g) \<Longrightarrow> distinct (map fst (graph_append g k v))"
  by (simp add: graph_append_def dict_set_distinct)

lemma fold_append_get:
  "graph_get (fold (\<lambda>dependency g'. graph_append g' dependency i) ds g) a
     = graph_get g a @ map (\<lambda>d. i) (filter (\<lambda>d. d = a) ds)"
  by (induction ds arbitrary: g) (auto simp: graph_get_append)

lemma fold_append_distinct:
  "distinct (map fst g) \<Longrightarrow>
   distinct (map fst (fold (\<lambda>dependency g'. graph_append g' dependency i) ds g))"
  by (induction ds arbitrary: g) (auto simp: graph_append_distinct)

lemma fold_tasks_get:
  "graph_get (fold (\<lambda>t g. fold (\<lambda>dependency g'. graph_append g' dependency (dt_id t))
                                (dt_dependencies t) g) tasks g0) a
     = graph_get g0 a
       @ concat (map (\<lambda>t. map (\<lambda>d. dt_id t) (filter (\<lambda>d. d = a) (dt_dependencies t))) tasks)"
  by (induction tasks arbitrary: g0) (auto simp: fold_append_get)

lemma fold_tasks_distinct:
  "distinct (map fst g0) \<Longrightarrow>
   distinct (map fst (fold (\<lambda>t g. fold (\<lambda>dependency g'. graph_append g' dependency (dt_id t))
                                (dt_dependencies t) g) tasks g0))"
  by (induction tasks arbitrary: g0) (auto simp: fold_append_distinct)

lemma build_graph_edges: "set (graph_get (build_graph tasks) a) = {b. (a, b) \<in> dep_edges tasks}"
  by (auto simp: build_graph_def fold_tasks_get graph_get_nil dep_edges_def)

lemma build_graph_distinct: "distinct (map fst (build_graph tasks))"
  by (simp add: build_graph_def fold_tasks_distinct)

lemma fold_tasks_keys:
  "fst ` set (fold (\<lambda>t d. dict_set d (dt_id t) t) tasks d0) = fst ` set d0 \<union> dt_id ` set tasks"
  by (induction tasks arbitrary: d0) (auto simp: dict_set_keys)

lemma fold_tasks_keys_distinct:
  "distinct (map fst d0) \<Longrightarrow> distinct (map fst (fold (\<lambda>t d. dict_set d (dt_id t) t) tasks d0))"
  by (induction tasks arbitrary: d0) (auto simp: dict_set_distinct)

text \<open>The counts that \<open>_calculate_in_degrees\<close> computes.\<close>

lemma fold_incr_get:
  "int_get (fold (\<lambda>neighbor d'. dict_set d' neighbor (int_get d' neighbor + 1)) ns d) b
     = int_get d b + int (count_list ns b)"
  by (induction ns arbitrary: d) (auto simp: int_get_dict_set)

lemma fold_in_degrees_get:
  "int_get (fold (\<lambda>(node, neighbors) d.
             fold (\<lambda>neighbor d'. dict_set d' neighbor (int_get d' neighbor + 1)) neighbors d)
          g d0) b
     = int_get d0 b + (\<Sum>(a, ns) \<leftarrow> g. int (count_list ns b))"
  by (induction g arbitrary: d0) (auto simp: fold_incr_get)

lemma sum_list_distinct_keys:
  "distinct (map fst g) \<Longrightarrow>
   (\<Sum>(a, ns) \<leftarrow> g. int (count_list ns b))
     = (\<Sum>a \<in> fst ` set g. int (count_list (graph_get g a) b))"
proof (induction g)
  case Nil
  then show ?case by simp
next
  case (Cons p g)
  obtain k ns where p: "p = (k, ns)" by (cases p) auto
  have k: "k \<notin> fst ` set g" using Cons.prems p by auto
  have same: "\<And>a. a \<in> fst ` set g \<Longrightarrow> graph_get ((k, ns) # g) a = graph_get g a"
    using k by (auto simp: graph_get_def)
  have "(\<Sum>a \<in> fst ` set (p # g). int (count_list (graph_get (p # g) a) b))
          = int (count_list ns b) + (\<Sum>a \<in> fst ` set g. int (count_list (graph_get ((k, ns) # g) a) b))"
    using k by (simp add: p graph_get_def get_or_def)
  also have "\<dots> = int (count_list ns b) + (\<Sum>a \<in> fst ` set g. int (count_list (graph_get g a) b))"
    using same by simp
  finally show ?case using Cons p by simp
qed

lemma in_degree_sum:
  assumes dist: "distinct (map fst g)" and fin: "finite K"
    and src: "\<forall>a. graph_get g a \<noteq> [] \<longrightarrow> a \<in> K"
  shows "int_get (calculate_in_degrees g) b = (\<Sum>a \<in> K. int (count_list (graph_get g a) b))"
proof -
  have z: "\<And>a. a \<notin> K \<Longrightarrow> graph_get g a = []" using src by blast
  have "int_get (calculate_in_degrees g) b = (\<Sum>(a, ns) \<leftarrow> g. int (count_list ns b))"
    by (simp add: calculate_in_degrees_def fold_in_degrees_get int_get_nil)
  also have "\<dots> = (\<Sum>a \<in> fst ` set g. int (count_list (graph_get g a) b))"
    by (rule sum_list_distinct_keys [OF dist])
  also have "\<dots> = (\<Sum>a \<in> K \<inter> fst ` set g. int (count_list (graph_get g a) b))
                 + (\<Sum>a \<in> fst ` set g - K. int (count_list (graph_get g a) b))"
    by (subst sum.union_disjoint [symmetric]) (auto intro: arg_cong2 [where f = sum])
  also have "(\<Sum>a \<in> fst ` set g - K. int (count_list (graph_get g a) b)) = 0"
    by (intro sum.neutral) (simp add: z)
  also have "(\<Sum>a \<in> K \<inter> fst ` set g. int (count_list (graph_get g a) b)) + 0
               = (\<Sum>a \<in> K. int (count_list (graph_get g a) b))"
  proof -
    have "\<And>a. a \<in> K - K \<inter> fst ` set g \<Longrightarrow> graph_get g a = []"
    proof -
      fix a assume "a \<in> K - K \<inter> fst ` set g"
      then have "a \<notin> fst ` set g" by auto
      then have "map_of g a = None" by (simp add: map_of_eq_None_iff)
      then show "graph_get g a = []" by (simp add: graph_get_def get_or_def)
    qed
    then show ?thesis
      using fin by (simp add: sum.mono_neutral_left [of K "K \<inter> fst ` set g"])
  qed
  finally show ?thesis .
qed

text \<open>What the loop over the neighbours of one node does to the counts and the queue.\<close>

lemma fold_relax:
  "\<exists>extra. fold relax ns (d, q) = (fst (fold relax ns (d, q)), q @ extra) \<and>
           distinct extra \<and>
           set extra = {b \<in> set ns. 1 \<le> int_get d b \<and> int_get d b \<le> int (count_list ns b)} \<and>
           (\<forall>b. int_get (fst (fold relax ns (d, q))) b = int_get d b - int (count_list ns b))"
proof (induction ns arbitrary: d q)
  case Nil
  then show ?case by simp
next
  case (Cons n ns)
  define d1 where "d1 = dict_set d n (int_get d n - 1)"
  define q1 where "q1 = (if int_get d n = 1 then q @ [n] else q)"
  have r: "relax n (d, q) = (d1, q1)"
    by (auto simp: relax_def Let_def d1_def q1_def int_get_dict_set)
  have d1: "\<And>b. int_get d1 b = (if b = n then int_get d n - 1 else int_get d b)"
    by (simp add: d1_def int_get_dict_set)
  obtain extra where e: "fold relax ns (d1, q1) = (fst (fold relax ns (d1, q1)), q1 @ extra)"
    and de: "distinct extra"
    and se: "set extra = {b \<in> set ns. 1 \<le> int_get d1 b \<and> int_get d1 b \<le> int (count_list ns b)}"
    and ce: "\<forall>b. int_get (fst (fold relax ns (d1, q1))) b = int_get d1 b - int (count_list ns b)"
    using Cons.IH [of d1 q1] by blast
  define extra' where "extra' = (if int_get d n = 1 then n # extra else extra)"
  have f: "fold relax (n # ns) (d, q) = fold relax ns (d1, q1)" by (simp add: r)
  have 1: "fold relax (n # ns) (d, q) = (fst (fold relax (n # ns) (d, q)), q @ extra')"
    unfolding f using e by (auto simp: extra'_def q1_def)
  have pos: "\<And>b. b \<notin> set ns \<Longrightarrow> count_list ns b = 0" by (simp add: count_list_0_iff)
  have 2: "distinct extra'"
    using de se by (auto simp: extra'_def d1)
  have 3: "set extra' = {b \<in> set (n # ns). 1 \<le> int_get d b
                           \<and> int_get d b \<le> int (count_list (n # ns) b)}"
  proof (intro set_eqI iffI)
    fix b assume "b \<in> set extra'"
    then show "b \<in> {b \<in> set (n # ns). 1 \<le> int_get d b
                           \<and> int_get d b \<le> int (count_list (n # ns) b)}"
      using se by (auto simp: extra'_def d1 split: if_splits)
  next
    fix b assume b: "b \<in> {b \<in> set (n # ns). 1 \<le> int_get d b
                           \<and> int_get d b \<le> int (count_list (n # ns) b)}"
    show "b \<in> set extra'"
    proof (cases "b = n")
      case True
      show ?thesis
      proof (cases "int_get d n = 1")
        case True
        then show ?thesis using \<open>b = n\<close> by (simp add: extra'_def)
      next
        case False
        have "2 \<le> int_get d n" using b True False by auto
        moreover have "int_get d n \<le> int (count_list ns n) + 1" using b True by auto
        ultimately have "n \<in> set ns" using pos [of n] by (cases "n \<in> set ns") auto
        then show ?thesis using b True False se by (auto simp: extra'_def d1)
      qed
    next
      case False
      then show ?thesis using b se by (auto simp: extra'_def d1)
    qed
  qed
  have 4: "\<forall>b. int_get (fst (fold relax (n # ns) (d, q))) b
                 = int_get d b - int (count_list (n # ns) b)"
    unfolding f using ce by (auto simp: d1)
  show ?case using 1 2 3 4 by blast
qed

lemma index_of_append:
  "a \<in> set xs \<Longrightarrow> index_of (xs @ ys) a = index_of xs a"
  by (induction xs) auto

lemma index_of_less: "a \<in> set xs \<Longrightarrow> index_of xs a < length xs"
  by (induction xs) auto

lemma index_of_fresh: "a \<notin> set xs \<Longrightarrow> index_of (xs @ [a]) a = length xs"
  by (induction xs) auto

lemma kahn_inv_step:
  assumes fin: "finite K"
    and tgt: "\<forall>a. set (graph_get g a) \<subseteq> K"
    and src: "\<forall>a. graph_get g a \<noteq> [] \<longrightarrow> a \<in> K"
    and inv: "kahn_inv g K d (cur # q) out"
    and f: "fold relax (graph_get g cur) (d, q) = (d', q')"
  shows "kahn_inv g K d' q' (out @ [cur])"
proof -
  let ?ns = "graph_get g cur"
  let ?c = "\<lambda>a b. int (count_list (graph_get g a) b)"
  have dist: "distinct (out @ cur # q)" and sub: "set (out @ cur # q) \<subseteq> K"
    and cnt: "\<And>b. int_get d b = (\<Sum>a \<in> K - set out. ?c a b)"
    and zero: "\<And>b. b \<in> K \<Longrightarrow> b \<in> set (out @ cur # q) \<longleftrightarrow> int_get d b = 0"
    and ord: "\<And>a b. b \<in> set (graph_get g a) \<Longrightarrow> b \<in> set out \<Longrightarrow>
                  a \<in> set out \<and> index_of out a < index_of out b"
    using inv unfolding kahn_inv_def by blast+
  have curK: "cur \<in> K" and cur_out: "cur \<notin> set out" and cur_q: "cur \<notin> set q"
    using dist sub by auto
  obtain extra where q': "q' = q @ extra" and de: "distinct extra"
    and se: "set extra = {b \<in> set ?ns. 1 \<le> int_get d b \<and> int_get d b \<le> ?c cur b}"
    and d': "\<And>b. int_get d' b = int_get d b - ?c cur b"
    using fold_relax [of ?ns d q] f by auto
  have finA: "finite (K - set out)" using fin by simp
  have split: "\<And>b. (\<Sum>a \<in> K - set out. ?c a b)
                   = ?c cur b + (\<Sum>a \<in> K - set (out @ [cur]). ?c a b)"
  proof -
    fix b
    have "K - set (out @ [cur]) = (K - set out) - {cur}" by auto
    then show "(\<Sum>a \<in> K - set out. ?c a b)
                   = ?c cur b + (\<Sum>a \<in> K - set (out @ [cur]). ?c a b)"
      using sum.remove [OF finA, of cur "\<lambda>a. ?c a b"] curK cur_out by simp
  qed
  have rest_nonneg: "\<And>b. 0 \<le> (\<Sum>a \<in> K - set (out @ [cur]). ?c a b)"
    by (intro sum_nonneg) simp
  have ge: "\<And>b. ?c cur b \<le> int_get d b"
    using cnt split rest_nonneg by (metis add.commute le_add_same_cancel2)
  have cnt': "\<And>b. int_get d' b = (\<Sum>a \<in> K - set (out @ [cur]). ?c a b)"
    using d' cnt split by simp
  have exK: "set extra \<subseteq> K" using se tgt by auto
  have ex_new: "\<And>b. b \<in> set extra \<Longrightarrow> b \<notin> set (out @ cur # q)"
  proof
    fix b assume b: "b \<in> set extra" and old: "b \<in> set (out @ cur # q)"
    have "b \<in> K" using b exK by auto
    then have "int_get d b = 0" using zero old by blast
    moreover have "1 \<le> int_get d b" using b se by auto
    ultimately show False by simp
  qed
  have 1: "distinct ((out @ [cur]) @ q')"
    using dist de ex_new by (auto simp: q')
  have 2: "set ((out @ [cur]) @ q') \<subseteq> K"
    using sub exK by (auto simp: q')
  have 4: "\<forall>b \<in> K. b \<in> set ((out @ [cur]) @ q') \<longleftrightarrow> int_get d' b = 0"
  proof (intro ballI iffI)
    fix b assume bK: "b \<in> K" and b: "b \<in> set ((out @ [cur]) @ q')"
    show "int_get d' b = 0"
    proof (cases "b \<in> set extra")
      case True
      then have "int_get d b \<le> ?c cur b" using se by auto
      then show ?thesis using ge [of b] d' [of b] by simp
    next
      case False
      then have "b \<in> set (out @ cur # q)" using b by (auto simp: q')
      then have "int_get d b = 0" using zero bK by blast
      moreover have "0 \<le> ?c cur b" by simp
      ultimately show ?thesis using ge [of b] d' [of b] by simp
    qed
  next
    fix b assume bK: "b \<in> K" and z: "int_get d' b = 0"
    have eq: "int_get d b = ?c cur b" using z d' [of b] by simp
    show "b \<in> set ((out @ [cur]) @ q')"
    proof (cases "int_get d b = 0")
      case True
      then have "b \<in> set (out @ cur # q)" using zero bK by blast
      then show ?thesis by (auto simp: q')
    next
      case False
      then have pos: "1 \<le> int_get d b" using eq by simp
      then have "count_list ?ns b \<noteq> 0" using eq by simp
      then have "b \<in> set ?ns" by (simp add: count_list_0_iff)
      then have "b \<in> set extra" using se pos eq by simp
      then show ?thesis by (simp add: q')
    qed
  qed
  have 5: "\<forall>a b. b \<in> set (graph_get g a) \<longrightarrow> b \<in> set (out @ [cur]) \<longrightarrow>
            a \<in> set (out @ [cur]) \<and> index_of (out @ [cur]) a < index_of (out @ [cur]) b"
  proof (intro allI impI)
    fix a b assume e: "b \<in> set (graph_get g a)" and b: "b \<in> set (out @ [cur])"
    show "a \<in> set (out @ [cur]) \<and> index_of (out @ [cur]) a < index_of (out @ [cur]) b"
    proof (cases "b \<in> set out")
      case True
      then show ?thesis using ord [OF e True] by (simp add: index_of_append)
    next
      case False
      then have bc: "b = cur" using b by simp
      have "int_get d cur = 0" using zero [OF curK] by simp
      then have s0: "(\<Sum>a \<in> K - set out. ?c a cur) = 0" using cnt by simp
      have "\<forall>a \<in> K - set out. ?c a cur = 0"
        using s0 finA by (subst (asm) sum_nonneg_eq_0_iff) simp_all
      moreover have "graph_get g a \<noteq> []" using e by auto
      then have "a \<in> K" using src by blast
      moreover have "?c a cur \<noteq> 0" using e bc by (simp add: count_list_0_iff)
      ultimately have a: "a \<in> set out" by blast
      then have "index_of (out @ [cur]) a < length out"
        by (simp add: index_of_append index_of_less)
      then show ?thesis using a bc cur_out by (simp add: index_of_fresh)
    qed
  qed
  show ?thesis
    unfolding kahn_inv_def using 1 2 cnt' 4 5 by blast
qed

lemma kahn_loop_inv:
  "finite K \<Longrightarrow> \<forall>a. set (graph_get g a) \<subseteq> K \<Longrightarrow> \<forall>a. graph_get g a \<noteq> [] \<longrightarrow> a \<in> K \<Longrightarrow>
   kahn_inv g K d q out \<Longrightarrow> \<exists>d'. kahn_inv g K d' [] (kahn_loop g d q out)"
proof (induction g d q out rule: kahn_loop.induct)
  case (1 g in_degree topo_order)
  then show ?case by auto
next
  case (2 g in_degree current queue topo_order)
  obtain d' q' where f: "fold relax (graph_get g current) (in_degree, queue) = (d', q')"
    by (cases "fold relax (graph_get g current) (in_degree, queue)") auto
  have "kahn_inv g K d' q' (topo_order @ [current])"
    by (rule kahn_inv_step [OF "2.prems"(1) "2.prems"(2) "2.prems"(3) "2.prems"(4) f])
  then have "\<exists>d''. kahn_inv g K d'' [] (kahn_loop g d' q' (topo_order @ [current]))"
    by (rule "2.IH" [OF f [symmetric] "2.prems"(1) "2.prems"(2) "2.prems"(3)])
  then show ?case by (simp add: f)
qed

text \<open>
  Claim C2. For a task list whose dependency relation is acyclic and whose dependency
  ids all refer to listed tasks, \<open>topological_sort\<close> returns an order that holds every
  task id exactly once and in which every task comes after each of its dependencies.
\<close>

theorem topological_sort_correct:
  assumes acyc: "acyclic (dep_edges tasks)"
    and closed: "\<forall>t \<in> set tasks. set (dt_dependencies t) \<subseteq> dt_id ` set tasks"
  shows "\<exists>order. topological_sort (DependencyAnalyzer tasks) = Inr order \<and>
           distinct order \<and> set order = dt_id ` set tasks \<and>
           (\<forall>(a, b) \<in> dep_edges tasks. index_of order a < index_of order b)"
proof -
  define g where "g = build_graph tasks"
  define K where "K = dt_id ` set tasks"
  define ts where "ts = fold (\<lambda>t d. dict_set d (dt_id t) t) tasks []"
  define d0 where "d0 = calculate_in_degrees g"
  define q0 where "q0 = filter (\<lambda>node. int_get d0 node = 0) (map fst ts)"
  define out where "out = kahn_loop g d0 q0 []"
  have an: "an_tasks (DependencyAnalyzer tasks) = ts" "an_graph (DependencyAnalyzer tasks) = g"
    "an_in_degree (DependencyAnalyzer tasks) = d0"
    by (simp_all add: DependencyAnalyzer_def Let_def ts_def g_def d0_def)
  have fin: "finite K" by (simp add: K_def)
  have keys: "set (map fst ts) = K"
    using fold_tasks_keys [of tasks "[]"] by (simp add: ts_def K_def)
  have dkeys: "distinct (map fst ts)"
    unfolding ts_def by (rule fold_tasks_keys_distinct) simp
  have len: "length ts = card K"
    using distinct_card [OF dkeys] keys by simp
  have edges: "\<And>a. set (graph_get g a) = {b. (a, b) \<in> dep_edges tasks}"
    by (simp add: g_def build_graph_edges)
  have tgt: "\<forall>a. set (graph_get g a) \<subseteq> K"
    by (auto simp: edges dep_edges_def K_def)
  have src: "\<forall>a. graph_get g a \<noteq> [] \<longrightarrow> a \<in> K"
  proof (intro allI impI)
    fix a assume "graph_get g a \<noteq> []"
    then obtain b where "b \<in> set (graph_get g a)" by (cases "graph_get g a") auto
    then have "(a, b) \<in> dep_edges tasks" by (simp add: edges)
    then show "a \<in> K" using closed by (auto simp: dep_edges_def K_def)
  qed
  have init: "kahn_inv g K d0 q0 []"
    unfolding kahn_inv_def
  proof (intro conjI)
    show "distinct ([] @ q0)" using dkeys by (simp add: q0_def)
    show "set ([] @ q0) \<subseteq> K" using keys by (auto simp: q0_def)
    show "\<forall>b. int_get d0 b = (\<Sum>a \<in> K - set []. int (count_list (graph_get g a) b))"
      using in_degree_sum [OF _ fin src] by (simp add: d0_def g_def build_graph_distinct)
    show "\<forall>b \<in> K. (b \<in> set ([] @ q0)) = (int_get d0 b = 0)"
      using keys by (auto simp: q0_def)
    show "\<forall>a b. b \<in> set (graph_get g a) \<longrightarrow> b \<in> set [] \<longrightarrow>
            a \<in> set [] \<and> index_of [] a < index_of [] b"
      by simp
  qed
  obtain d' where inv: "kahn_inv g K d' [] out"
    using kahn_loop_inv [OF fin tgt src init] unfolding out_def by blast
  have dist: "distinct out" and sub: "set out \<subseteq> K"
    and cnt: "\<And>b. int_get d' b = (\<Sum>a \<in> K - set out. int (count_list (graph_get g a) b))"
    and zero: "\<And>b. b \<in> K \<Longrightarrow> b \<in> set out \<longleftrightarrow> int_get d' b = 0"
    and ord: "\<And>a b. b \<in> set (graph_get g a) \<Longrightarrow> b \<in> set out \<Longrightarrow>
                  a \<in> set out \<and> index_of out a < index_of out b"
    using inv unfolding kahn_inv_def by auto
  have all: "set out = K"
  proof (rule ccontr)
    assume "set out \<noteq> K"
    then obtain x where x: "x \<in> K - set out" using sub by auto
    have "dep_edges tasks \<subseteq> K \<times> K"
      using closed by (auto simp: dep_edges_def K_def)
    then have "finite (dep_edges tasks)" using fin by (meson finite_SigmaI finite_subset)
    then have "wf (dep_edges tasks)" using acyc by (rule finite_acyclic_wf)
    then obtain z where z: "z \<in> K - set out"
      and zmin: "\<And>y. (y, z) \<in> dep_edges tasks \<Longrightarrow> y \<notin> K - set out"
      using x by (rule wfE_min) blast
    have "int_get d' z \<noteq> 0" using zero [of z] z by auto
    then have "(\<Sum>a \<in> K - set out. int (count_list (graph_get g a) z)) \<noteq> 0"
      using cnt by simp
    then obtain a where a: "a \<in> K - set out" and "int (count_list (graph_get g a) z) \<noteq> 0"
      by (meson sum.neutral)
    then have "z \<in> set (graph_get g a)" by (simp add: count_list_0_iff)
    then have "(a, z) \<in> dep_edges tasks" by (simp add: edges)
    then show False using zmin a by blast
  qed
  have "length out = length ts"
    using distinct_card [OF dist] all len by simp
  then have res: "topological_sort (DependencyAnalyzer tasks) = Inr out"
    by (simp add: topological_sort_def an Let_def out_def q0_def)
  have "\<forall>(a, b) \<in> dep_edges tasks. index_of out a < index_of out b"
  proof (intro ballI, clarify)
    fix a b assume e: "(a, b) \<in> dep_edges tasks"
    then have "b \<in> set (graph_get g a)" by (simp add: edges)
    moreover have "b \<in> set out" using e all by (auto simp: dep_edges_def K_def)
    ultimately show "index_of out a < index_of out b" using ord by blast
  qed
  then show ?thesis using res dist all by (auto simp: K_def)
qed

theorem topological_sort_correct_witness:
  "acyclic (dep_edges tasks_chain) \<and>
   topological_sort (DependencyAnalyzer tasks_chain) = Inr [''A'', ''B'', ''C''] \<and>
   index_of [''A'', ''B'', ''C''] ''A'' < index_of [''A'', ''B'', ''C''] ''C''"
proof -
  have e: "dep_edges tasks_chain = {(''B'', ''C''), (''A'', ''C''), (''A'', ''B'')}"
    by (auto simp: dep_edges_def tasks_chain_def)
  have acyc: "acyclic (dep_edges tasks_chain)"
    unfolding e
    by (rule acyclicI_order [where f = "\<lambda>x. if x = ''A'' then (2::nat) else if x = ''B'' then 1 else 0"])
       auto
  have closed: "\<forall>t \<in> set tasks_chain. set (dt_dependencies t) \<subseteq> dt_id ` set tasks_chain"
    by (simp add: tasks_chain_def)
  have r: "topological_sort (DependencyAnalyzer tasks_chain) = Inr [''A'', ''B'', ''C'']"
    by code_simp
  have "(''A'', ''C'') \<in> dep_edges tasks_chain" by (simp add: e)
  then show ?thesis
    using acyc r topological_sort_correct [OF acyc closed] by auto
qed

end
